theory Spec2Isabelle
  imports Complex_Main "HOL-Library.AList" "HOL-Library.Multiset" "HOL-Library.Log_Nat"
begin

section \<open>JavaScript values\<close>

text \<open>
  The exporter works on what \<^verbatim>\<open>JSON.parse\<close> returns for the answers of the
  speedrun.com API, and on the plain objects it builds from them.  A value is
  \<^verbatim>\<open>undefined\<close>, \<^verbatim>\<open>null\<close>, a boolean, a number, a string, an array or an object,
  or a member of a built-in prototype, which a lookup by a computed name can
  find: \<open>Builtin k\<close> is the member named \<open>k\<close> (a function, or the prototype itself
  for \<^verbatim>\<open>__proto__\<close>).  An object is the list of its own properties in insertion
  order; \<^verbatim>\<open>JSON.parse\<close> gives no \<open>Builtin\<close>.

  A number is the rational that the double is.  \<^verbatim>\<open>NaN\<close> never is a stored value
  (JSON has no literal for it); where a conversion produces it, the result is
  \<open>None\<close>.  The infinities are identified with \<^verbatim>\<open>NaN\<close>.
\<close>

datatype jsval =
    Undefined
  | Null
  | Bool bool
  | Num rat
  | Str string
  | Arr "jsval list"
  | Obj "(string \<times> jsval) list"
  | Builtin string

type_synonym obj = "(string \<times> jsval) list"

datatype error = TypeError | RequestFailed

definition bindE :: "error + 'a \<Rightarrow> ('a \<Rightarrow> error + 'b) \<Rightarrow> error + 'b" where
  "bindE m f = (case m of Inl e \<Rightarrow> Inl e | Inr x \<Rightarrow> f x)"

text \<open>\<^verbatim>\<open>!!v\<close>\<close>

fun truthy :: "jsval \<Rightarrow> bool" where
  "truthy Undefined = False"
| "truthy Null = False"
| "truthy (Bool b) = b"
| "truthy (Num n) = (n \<noteq> 0)"
| "truthy (Str s) = (s \<noteq> [])"
| "truthy (Arr xs) = True"
| "truthy (Obj kvs) = True"
| "truthy (Builtin k) = True"

text \<open>Whether a value is a number, and the number.\<close>

fun isNum :: "jsval \<Rightarrow> bool" where
  "isNum (Num t) = True"
| "isNum v = False"

fun numOf :: "jsval \<Rightarrow> rat" where
  "numOf (Num t) = t"
| "numOf v = 0"

subsection \<open>Numbers and strings\<close>

definition digitChar :: "int \<Rightarrow> char" where
  "digitChar d = ''0123456789'' ! nat d"

function digitsOf :: "int \<Rightarrow> string" where
  "digitsOf n = (if n < 10 then [digitChar n] else digitsOf (n div 10) @ [digitChar (n mod 10)])"
  by pat_completeness auto
termination
  by (relation "measure nat") auto

declare digitsOf.simps [simp del]

text \<open>The decimal numeral of an integer, as \<^verbatim>\<open>'' + n\<close> prints it (\<^verbatim>\<open>-0\<close> prints as \<^verbatim>\<open>0\<close>).\<close>

definition showInt :: "int \<Rightarrow> string" where
  "showInt i = (if i < 0 then CHR ''-'' # digitsOf (- i) else digitsOf i)"

definition digitValue :: "char \<Rightarrow> int option" where
  "digitValue c = map_of (zip ''0123456789'' [0, 1, 2, 3, 4, 5, 6, 7, 8, 9]) c"

fun parseDigits :: "int \<Rightarrow> string \<Rightarrow> int option" where
  "parseDigits acc [] = Some acc"
| "parseDigits acc (c # cs) =
     (case digitValue c of None \<Rightarrow> None | Some d \<Rightarrow> parseDigits (10 * acc + d) cs)"

text \<open>
  An array index is a canonical numeric string below \<open>2^32 - 1\<close>: a string that the
  number it denotes prints back.
\<close>

definition arrayIndex :: "string \<Rightarrow> int option" where
  "arrayIndex k =
     (if k = [] then None
      else case parseDigits 0 k of
             None \<Rightarrow> None
           | Some n \<Rightarrow> if digitsOf n = k \<and> n < 4294967295 then Some n else None)"

text \<open>
  What ECMAScript leaves to the host, or what depends on the digits of a double,
  is a parameter: printing a number that is not an integer of magnitude up to
  \<open>2^53\<close> (from there on \<^verbatim>\<open>'' + n\<close> prints the shortest digits that read back as
  the double, then zeros); reading a string as a number (\<open>None\<close> when the string
  is no finite numeral); printing a member of a built-in prototype; the member
  of a name in the prototype chain of a value that is not a plain object
  (\<^verbatim>\<open>Array.prototype\<close>, \<^verbatim>\<open>String.prototype\<close> and so on, \<open>Undefined\<close> when there
  is none); and the place that \<^verbatim>\<open>sort\<close> gives to the element at an index of an
  array whose comparison function is not consistent, given the times that are
  compared (ECMAScript fixes no order then; equal places keep the order of the
  indices).
\<close>

record ecma =
  numberToString :: "rat \<Rightarrow> string"
  stringToNumber :: "string \<Rightarrow> rat option"
  builtinToString :: "string \<Rightarrow> string"
  prototypeMember :: "jsval \<Rightarrow> string \<Rightarrow> jsval"
  sortRank :: "jsval list \<Rightarrow> nat \<Rightarrow> nat"

fun joinComma :: "string list \<Rightarrow> string" where
  "joinComma [] = []"
| "joinComma [s] = s"
| "joinComma (s # t # ss) = s @ '','' @ joinComma (t # ss)"

fun ToString :: "ecma \<Rightarrow> jsval \<Rightarrow> string" where
  "ToString js Undefined = ''undefined''"
| "ToString js Null = ''null''"
| "ToString js (Bool b) = (if b then ''true'' else ''false'')"
| "ToString js (Num n) =
     (if of_int \<lfloor>n\<rfloor> = n \<and> \<bar>n\<bar> \<le> 2 ^ 53 then showInt \<lfloor>n\<rfloor> else numberToString js n)"
| "ToString js (Str s) = s"
| "ToString js (Arr xs) =
     joinComma (map (\<lambda>x. if x = Undefined \<or> x = Null then [] else ToString js x) xs)"
| "ToString js (Obj kvs) = ''[object Object]''"
| "ToString js (Builtin k) = builtinToString js k"

fun ToNumber :: "ecma \<Rightarrow> jsval \<Rightarrow> rat option" where
  "ToNumber js Undefined = None"
| "ToNumber js Null = Some 0"
| "ToNumber js (Bool b) = Some (if b then 1 else 0)"
| "ToNumber js (Num n) = Some n"
| "ToNumber js (Str s) = stringToNumber js s"
| "ToNumber js (Arr xs) = stringToNumber js (ToString js (Arr xs))"
| "ToNumber js (Obj kvs) = stringToNumber js (ToString js (Obj kvs))"
| "ToNumber js (Builtin k) = stringToNumber js (ToString js (Builtin k))"

text \<open>\<^verbatim>\<open>Math.floor(v)\<close>; \<open>None\<close> is \<^verbatim>\<open>NaN\<close>.\<close>

definition Math_floor :: "ecma \<Rightarrow> jsval \<Rightarrow> int option" where
  "Math_floor js v = map_option floor (ToNumber js v)"

subsection \<open>Double precision\<close>

text \<open>
  The result of \<^verbatim>\<open>a - b\<close> and of \<^verbatim>\<open>a / b\<close> is the exact result rounded to the
  nearest number with a significand of 53 bits, to the even significand in a
  tie; \<^verbatim>\<open>a % b\<close> is exact and has the sign of the dividend.  \<open>binade x\<close> is the
  exponent \<open>e\<close> with \<open>2^e \<le> |x| < 2^(e+1)\<close>.  The exponent is not bounded: there is
  no overflow to infinity and no gradual underflow, which set in beyond \<open>10^308\<close>
  and below \<open>10^-307\<close>.
\<close>

definition pow2 :: "int \<Rightarrow> rat" where
  "pow2 k = (if 0 \<le> k then 2 ^ nat k else 1 / 2 ^ nat (- k))"

definition binade :: "rat \<Rightarrow> int" where
  "binade x =
     (let (a, b) = quotient_of \<bar>x\<bar>; e = bitlen a - bitlen b
      in if pow2 e \<le> \<bar>x\<bar> then e else e - 1)"

definition roundHalfEven :: "rat \<Rightarrow> int" where
  "roundHalfEven y =
     (let q = \<lfloor>y\<rfloor>; r = y - of_int q
      in if r < 1 / 2 then q else if 1 / 2 < r then q + 1 else if even q then q else q + 1)"

definition roundDouble :: "rat \<Rightarrow> rat" where
  "roundDouble x =
     (if x = 0 then 0
      else let ulp = pow2 (binade x - 52) in of_int (roundHalfEven (x / ulp)) * ulp)"

definition jsMinus :: "rat \<Rightarrow> rat \<Rightarrow> rat" where
  "jsMinus a b = roundDouble (a - b)"

definition jsDivide :: "rat \<Rightarrow> rat \<Rightarrow> rat" where
  "jsDivide a b = roundDouble (a / b)"

text \<open>The quotient with its fraction dropped, and the remainder that goes with it.\<close>

definition truncation :: "rat \<Rightarrow> int" where
  "truncation q = (if q < 0 then - \<lfloor>- q\<rfloor> else \<lfloor>q\<rfloor>)"

definition jsRemainder :: "rat \<Rightarrow> rat \<Rightarrow> rat" where
  "jsRemainder a b = a - b * of_int (truncation (a / b))"

text \<open>\<^verbatim>\<open>s.padStart(2, '0')\<close>\<close>

definition padStart2 :: "string \<Rightarrow> string" where
  "padStart2 s = replicate (2 - length s) CHR ''0'' @ s"

subsection \<open>Properties\<close>

text \<open>
  \<open>getp v k\<close> is \<^verbatim>\<open>v.k\<close> for a name \<open>k\<close> that is written in the source and a value
  that is neither \<^verbatim>\<open>undefined\<close> nor \<^verbatim>\<open>null\<close>; \<open>readProp\<close> adds the \<^verbatim>\<open>TypeError\<close>
  of reading a property of those two.  None of the names that the exporter
  writes is a member of a prototype of the values it reads the name from, so
  that \<open>getp\<close> reads own properties (the \<^verbatim>\<open>length\<close> and the elements of an array or
  a string are own properties).
\<close>

fun getp :: "jsval \<Rightarrow> string \<Rightarrow> jsval" where
  "getp (Obj kvs) k = (case map_of kvs k of Some v \<Rightarrow> v | None \<Rightarrow> Undefined)"
| "getp (Arr xs) k =
     (if k = ''length'' then Num (of_nat (length xs))
      else case arrayIndex k of
             Some i \<Rightarrow> if i < int (length xs) then xs ! nat i else Undefined
           | None \<Rightarrow> Undefined)"
| "getp (Str s) k =
     (if k = ''length'' then Num (of_nat (length s))
      else case arrayIndex k of
             Some i \<Rightarrow> if i < int (length s) then Str [s ! nat i] else Undefined
           | None \<Rightarrow> Undefined)"
| "getp v k = Undefined"

definition nullish :: "jsval \<Rightarrow> bool" where
  "nullish v = (v = Undefined \<or> v = Null)"

definition readProp :: "jsval \<Rightarrow> string \<Rightarrow> error + jsval" where
  "readProp v k = (if nullish v then Inl TypeError else Inr (getp v k))"

text \<open>
  \<^verbatim>\<open>o[k] = v\<close> on a plain object: in place when the key is there, appended
  otherwise.  An assignment to the name \<^verbatim>\<open>__proto__\<close> goes to the prototype and
  makes no own property.  Of the objects here that are assigned to by a computed
  name only \<^verbatim>\<open>usedVars\<close> can be given this one, and the exporter never reads a
  property of it, so that no prototype is kept.
\<close>

definition setp :: "obj \<Rightarrow> string \<Rightarrow> jsval \<Rightarrow> obj" where
  "setp ob k v = (if k = ''__proto__'' then ob else AList.update k v ob)"

text \<open>
  The members of \<^verbatim>\<open>Object.prototype\<close>.  Looking one of these names up in a
  dictionary that has no own property of the name gives the inherited member,
  which is truthy and has no \<^verbatim>\<open>push\<close>, no \<^verbatim>\<open>runs\<close> and no \<^verbatim>\<open>label\<close>.
\<close>

definition inheritedName :: "string \<Rightarrow> bool" where
  "inheritedName k = (k \<in> set
     [''constructor'', ''__proto__'', ''hasOwnProperty'', ''isPrototypeOf'',
      ''propertyIsEnumerable'', ''toLocaleString'', ''toString'', ''valueOf'',
      ''__defineGetter__'', ''__defineSetter__'', ''__lookupGetter__'',
      ''__lookupSetter__''])"

text \<open>
  \<^verbatim>\<open>v[k]\<close> for a computed name \<open>k\<close>, which may be the name of an inherited
  member: the own property when there is one, otherwise what the prototype chain
  has, which for a plain object is \<^verbatim>\<open>Object.prototype\<close>.
\<close>

fun hasOwn :: "jsval \<Rightarrow> string \<Rightarrow> bool" where
  "hasOwn (Obj kvs) k = (map_of kvs k \<noteq> None)"
| "hasOwn (Arr xs) k =
     (k = ''length'' \<or> (case arrayIndex k of Some i \<Rightarrow> i < int (length xs) | None \<Rightarrow> False))"
| "hasOwn (Str s) k =
     (k = ''length'' \<or> (case arrayIndex k of Some i \<Rightarrow> i < int (length s) | None \<Rightarrow> False))"
| "hasOwn v k = False"

definition getMember :: "ecma \<Rightarrow> jsval \<Rightarrow> string \<Rightarrow> jsval" where
  "getMember js v k =
     (if hasOwn v k then getp v k
      else case v of
             Obj kvs \<Rightarrow> if inheritedName k then Builtin k else Undefined
           | _ \<Rightarrow> prototypeMember js v k)"

definition readMember :: "ecma \<Rightarrow> jsval \<Rightarrow> string \<Rightarrow> error + jsval" where
  "readMember js v k = (if nullish v then Inl TypeError else Inr (getMember js v k))"

text \<open>
  \<^verbatim>\<open>for (k in o)\<close> visits the array-index keys in ascending numeric order first,
  then the other keys in insertion order.
\<close>

definition isIndexKey :: "string \<times> 'a \<Rightarrow> bool" where
  "isIndexKey kv = (arrayIndex (fst kv) \<noteq> None)"

definition forIn :: "(string \<times> 'a) list \<Rightarrow> (string \<times> 'a) list" where
  "forIn d =
     sort_key (\<lambda>kv. case arrayIndex (fst kv) of Some i \<Rightarrow> i | None \<Rightarrow> 0) (filter isIndexKey d)
     @ filter (\<lambda>kv. \<not> isIndexKey kv) d"

section \<open>Options and the upstream API\<close>

record opts =
  breakoutVariables :: bool
  includeUnverifiedRuns :: bool
  includeRunHistory :: bool

text \<open>
  \<open>api path\<close> is what \<^verbatim>\<open>await speedrunApiRequest(path)\<close> gives: the \<^verbatim>\<open>data\<close> of the
  response, or the error thrown after the retries or for a response without
  \<^verbatim>\<open>data\<close>.  The upstream answers a path the same way during one export.

  The memo tables \<^verbatim>\<open>platformMap\<close> and \<^verbatim>\<open>userMap\<close> (lines 89 and 100) are plain
  objects that start empty.  An own property is the name that a request for the
  same id gave before, so that reading it and placing the request again give
  the same; it is not stored here.  For an id that names a member of
  \<^verbatim>\<open>Object.prototype\<close> the lookup of lines 92 and 103 finds that member, which is
  truthy, and returns it without a request.
\<close>

type_synonym api = "string \<Rightarrow> error + jsval"

definition getPlatform :: "ecma \<Rightarrow> api \<Rightarrow> jsval \<Rightarrow> error + jsval" where
  "getPlatform js request platformId =
     (if \<not> truthy platformId then Inr Undefined
      else if inheritedName (ToString js platformId) then Inr (Builtin (ToString js platformId))
      else bindE (request (''platforms/'' @ ToString js platformId)) (\<lambda>response.
        if truthy response \<and> truthy (getp response ''name'')
        then Inr (getp response ''name'')
        else Inr Undefined))"

definition getUsername :: "ecma \<Rightarrow> api \<Rightarrow> jsval \<Rightarrow> error + jsval" where
  "getUsername js request userId =
     (if \<not> truthy userId then Inr Undefined
      else if inheritedName (ToString js userId) then Inr (Builtin (ToString js userId))
      else bindE (request (''users/'' @ ToString js userId)) (\<lambda>response.
        if truthy response \<and> truthy (getp response ''names'')
           \<and> truthy (getp (getp response ''names'') ''international'')
        then Inr (getp (getp response ''names'') ''international'')
        else Inr Undefined))"

section \<open>The Normalizer: \<^verbatim>\<open>processRun\<close>\<close>

text \<open>
  Lines 129-135: the hours, minutes and seconds of the floored number of
  seconds, computed in double precision; and line 136, the time string.  \<open>None\<close>
  is the \<^verbatim>\<open>NaN\<close> that \<^verbatim>\<open>Math.floor\<close> gives for a time that is no number, which
  every operation hands on.
\<close>

definition timeFields :: "rat \<Rightarrow> rat \<times> rat \<times> rat" where
  "timeFields unresolvedTime0 =
     (let seconds = jsRemainder unresolvedTime0 60;
          unresolvedTime1 = jsMinus unresolvedTime0 seconds;
          minutes0 = jsRemainder unresolvedTime1 3600;
          unresolvedTime2 = jsMinus unresolvedTime1 minutes0;
          minutes = jsDivide minutes0 60;
          hours = jsDivide unresolvedTime2 3600
      in (hours, minutes, seconds))"

definition formatTime :: "ecma \<Rightarrow> int option \<Rightarrow> string" where
  "formatTime js t =
     (case t of
        None \<Rightarrow> ''NaN:NaN:NaN''
      | Some floored \<Rightarrow>
          (case timeFields (of_int floored) of
             (hours, minutes, seconds) \<Rightarrow>
               padStart2 (ToString js (Num hours)) @ '':'' @ padStart2 (ToString js (Num minutes))
                 @ '':'' @ padStart2 (ToString js (Num seconds))))"

text \<open>Lines 127-138.\<close>

definition setTimes :: "ecma \<Rightarrow> jsval \<Rightarrow> obj \<Rightarrow> obj" where
  "setTimes js runResponseObj runObj =
     (let times = getp runResponseObj ''times'' in
      if truthy times \<and> truthy (getp times ''primary_t'')
      then setp (setp runObj ''time''
                  (Str (formatTime js (Math_floor js (getp times ''primary_t'')))))
             ''timeSeconds'' (getp times ''primary_t'')
      else runObj)"

text \<open>Lines 141-144.\<close>

definition setVerifier :: "ecma \<Rightarrow> api \<Rightarrow> jsval \<Rightarrow> obj \<Rightarrow> error + obj" where
  "setVerifier js request runResponseObj runObj =
     (if getp (Obj runObj) ''status'' = Str ''verified''
      then bindE (getUsername js request (getp (getp runResponseObj ''status'') ''examiner''))
             (\<lambda>verifier.
               Inr (setp (setp runObj ''verifyTime''
                            (getp (getp runResponseObj ''status'') ''verify-date''))
                      ''verifier'' verifier))
      else Inr runObj)"

text \<open>
  Lines 145-153.  \<^verbatim>\<open>links.map\<close> is a function only when \<^verbatim>\<open>links\<close> is an array;
  the callback reads \<^verbatim>\<open>obj.uri\<close> of every element.
\<close>

fun mapUri :: "jsval list \<Rightarrow> error + jsval list" where
  "mapUri [] = Inr []"
| "mapUri (x # xs) =
     bindE (readProp x ''uri'') (\<lambda>u. bindE (mapUri xs) (\<lambda>us. Inr (u # us)))"

definition setVideos :: "jsval \<Rightarrow> obj \<Rightarrow> error + obj" where
  "setVideos runResponseObj runObj =
     (let videos = getp runResponseObj ''videos'' in
      if truthy videos \<and> truthy (getp videos ''links'')
         \<and> truthy (getp (getp videos ''links'') ''0'')
      then (case getp videos ''links'' of
              Arr links \<Rightarrow>
                bindE (mapUri links) (\<lambda>uris.
                  Inr (setp runObj ''videos'' (Arr (filter truthy uris))))
            | _ \<Rightarrow> Inl TypeError)
      else Inr runObj)"

text \<open>Lines 154-156.\<close>

definition setPlatform :: "ecma \<Rightarrow> api \<Rightarrow> jsval \<Rightarrow> obj \<Rightarrow> error + obj" where
  "setPlatform js request runResponseObj runObj =
     (let system = getp runResponseObj ''system'' in
      if truthy system \<and> truthy (getp system ''platform'')
      then bindE (getPlatform js request (getp system ''platform'')) (\<lambda>name.
             Inr (setp runObj ''platform'' name))
      else Inr runObj)"

text \<open>Lines 157-175.\<close>

definition setPlayer :: "ecma \<Rightarrow> api \<Rightarrow> jsval \<Rightarrow> obj \<Rightarrow> error + obj" where
  "setPlayer js request runResponseObj runObj =
     (let players = getp runResponseObj ''players'' in
      if truthy players \<and> getp players ''length'' = Num 1
      then bindE (readProp (getp players ''0'') ''rel'') (\<lambda>rel.
             let playerObj = getp players ''0'' in
             if rel = Str ''guest''
             then Inr (setp runObj ''player''
                         (Obj [(''rel'', Str ''guest''),
                               (''id'', getp playerObj ''name''),
                               (''name'', getp playerObj ''name'')]))
             else if rel = Str ''user''
             then bindE (getUsername js request (getp playerObj ''id'')) (\<lambda>name.
                    Inr (setp runObj ''player''
                           (Obj [(''rel'', Str ''user''),
                                 (''id'', getp playerObj ''id''),
                                 (''name'', name)])))
             else Inr runObj)
      else Inr runObj)"

text \<open>Lines 113-119: the object literal, \<open>status\<close> being \<^verbatim>\<open>runResponseObj.status.status\<close>.\<close>

definition newRunObj :: "jsval \<Rightarrow> jsval \<Rightarrow> obj" where
  "newRunObj runResponseObj status =
     [(''id'', getp runResponseObj ''id''),
      (''comment'', getp runResponseObj ''comment''),
      (''submitTime'', getp runResponseObj ''submitted''),
      (''status'', status),
      (''variables'',
         if truthy (getp runResponseObj ''values'')
         then getp runResponseObj ''values'' else Obj [])]"

text \<open>Lines 111-178.  \<open>Inr None\<close> is the \<^verbatim>\<open>null\<close> of a rejected run.\<close>

definition processRun :: "ecma \<Rightarrow> opts \<Rightarrow> api \<Rightarrow> jsval \<Rightarrow> error + obj option" where
  "processRun js popts request runResponseObj =
     (if \<not> truthy runResponseObj \<or> \<not> truthy runResponseObj then Inr None
      else bindE (readProp (getp runResponseObj ''status'') ''status'') (\<lambda>status.
        let runObj = newRunObj runResponseObj status in
        if \<not> truthy (getp (Obj runObj) ''status'')
           \<or> (\<not> includeUnverifiedRuns popts
               \<and> getp (Obj runObj) ''status'' \<noteq> Str ''verified'')
        then Inr None
        else
          let runObj = setTimes js runResponseObj runObj in
          if \<not> truthy (getp (Obj runObj) ''timeSeconds'') then Inr None
          else
            bindE (setVerifier js request runResponseObj runObj) (\<lambda>runObj.
            bindE (setVideos runResponseObj runObj) (\<lambda>runObj.
            bindE (setPlatform js request runResponseObj runObj) (\<lambda>runObj.
            bindE (setPlayer js request runResponseObj runObj) (\<lambda>runObj.
              Inr (Some runObj)))))))"

text \<open>
  The two fields of a raw run that decide whether it is kept:
  \<^verbatim>\<open>runResponseObj.times.primary_t\<close> and \<^verbatim>\<open>runResponseObj.status.status\<close>.
\<close>

definition primaryTime :: "jsval \<Rightarrow> jsval" where
  "primaryTime runResponseObj = getp (getp runResponseObj ''times'') ''primary_t''"

definition rawStatus :: "jsval \<Rightarrow> jsval" where
  "rawStatus runResponseObj = getp (getp runResponseObj ''status'') ''status''"

section \<open>The Builder: splitting a category into leaderboards\<close>

text \<open>
  \<^verbatim>\<open>varObj\<close> (lines 196-200), \<^verbatim>\<open>catObj\<close> (lines 187-193) and the leaderboard
  objects (lines 259-265 and 270-276).  The \<^verbatim>\<open>values\<close> of a variable are the own
  properties that line 203 gave to an empty plain object, one for each value
  key of the API other than \<^verbatim>\<open>__proto__\<close>; its prototype is \<^verbatim>\<open>Object.prototype\<close>.
  The name of a leaderboard is a string when the category is broken out and the
  \<^verbatim>\<open>name\<close> of the category as the API gave it otherwise.
\<close>

record variable =
  var_id :: jsval
  var_name :: jsval
  var_values :: obj

record category =
  cat_id :: jsval
  cat_name :: jsval
  cat_rules :: jsval
  cat_variables :: "variable list"
  cat_runs :: "obj list"

record leaderboard =
  lb_id :: string
  lb_categoryId :: string
  lb_variables :: obj
  lb_name :: jsval
  lb_runs :: "obj list"

text \<open>
  Lines 223-237: the walk over the variables of the category, left at the first
  variable for which the lookup of the id in the \<^verbatim>\<open>variables\<close> of the run, or the
  lookup of the value it gives in the \<^verbatim>\<open>values\<close> of the variable, is falsy.  Both
  lookups are by computed names.  The result is \<^verbatim>\<open>uncategorized\<close>, \<^verbatim>\<open>usedVars\<close> and
  \<^verbatim>\<open>orderedVars\<close>.
\<close>

fun walkVariables ::
  "ecma \<Rightarrow> obj \<Rightarrow> variable list \<Rightarrow> obj \<Rightarrow> (jsval \<times> jsval) list
     \<Rightarrow> error + bool \<times> obj \<times> (jsval \<times> jsval) list" where
  "walkVariables js runObj [] usedVars orderedVars = Inr (False, usedVars, orderedVars)"
| "walkVariables js runObj (catVariable # rest) usedVars orderedVars =
     bindE (readMember js (getp (Obj runObj) ''variables'') (ToString js (var_id catVariable)))
       (\<lambda>val.
         if \<not> truthy val then Inr (True, usedVars, orderedVars)
         else if \<not> truthy (getMember js (Obj (var_values catVariable)) (ToString js val))
         then Inr (True, usedVars, orderedVars)
         else walkVariables js runObj rest
                (setp usedVars (ToString js (var_id catVariable)) val)
                (orderedVars @ [(var_id catVariable, val)]))"

text \<open>Lines 246-255: the loop that extends \<^verbatim>\<open>lbId\<close> and \<^verbatim>\<open>lbName\<close>.\<close>

function leaderboardName ::
  "ecma \<Rightarrow> variable list \<Rightarrow> (jsval \<times> jsval) list \<Rightarrow> nat \<Rightarrow> string \<Rightarrow> string
     \<Rightarrow> error + string \<times> string" where
  "leaderboardName js variables orderedVars i lbId lbName =
     (if i < length orderedVars
      then (if i < length variables
            then bindE (readProp (getMember js (Obj (var_values (variables ! i)))
                                   (ToString js (snd (orderedVars ! i)))) ''label'')
                   (\<lambda>label.
                     leaderboardName js variables orderedVars (i + 1)
                       (lbId @ ''$'' @ ToString js (fst (orderedVars ! i)) @ ''^''
                          @ ToString js (snd (orderedVars ! i)))
                       (lbName @ (if i = 0 then '' - '' else '', '') @ ToString js label))
            else Inl TypeError)
      else Inr (lbId, lbName))"
  by pat_completeness auto
termination
  by (relation "measure (\<lambda>(js, variables, orderedVars, i, lbId, lbName). length orderedVars - i)")
     auto

declare leaderboardName.simps [simp del]

text \<open>
  Lines 258-267: the leaderboard is made on first use, and the run pushed.  The
  id has a \<open>$\<close> in it and so is no name of a member of \<^verbatim>\<open>Object.prototype\<close>: the
  lookup of line 258 sees own properties only.
\<close>

definition placeRun ::
  "string \<Rightarrow> string \<Rightarrow> obj \<Rightarrow> string \<Rightarrow> obj \<Rightarrow> (string \<times> leaderboard) list
     \<Rightarrow> (string \<times> leaderboard) list" where
  "placeRun lbId catId usedVars lbName runObj leaderboards =
     (let leaderboards1 =
            (if map_of leaderboards lbId = None
             then AList.update lbId
                    \<lparr>lb_id = lbId, lb_categoryId = catId, lb_variables = usedVars,
                     lb_name = Str lbName, lb_runs = []\<rparr> leaderboards
             else leaderboards)
      in AList.map_entry lbId (\<lambda>lbObj. lbObj\<lparr>lb_runs := lb_runs lbObj @ [runObj]\<rparr>)
           leaderboards1)"

text \<open>Lines 239-256: the id and the name of the leaderboard of a run.\<close>

definition leaderboardOf ::
  "ecma \<Rightarrow> string \<Rightarrow> category \<Rightarrow> bool \<Rightarrow> (jsval \<times> jsval) list
     \<Rightarrow> error + string \<times> string" where
  "leaderboardOf js catId catObj uncategorized orderedVars =
     (if uncategorized
      then Inr (catId @ ''$UNCATEGORIZED'', ToString js (cat_name catObj) @ '' - Uncategorized'')
      else leaderboardName js (cat_variables catObj) orderedVars 0
             catId (ToString js (cat_name catObj)))"

text \<open>Lines 223-267: one run of a category that is broken out.\<close>

definition breakoutRun ::
  "ecma \<Rightarrow> string \<Rightarrow> category \<Rightarrow> obj \<Rightarrow> (string \<times> leaderboard) list
     \<Rightarrow> error + (string \<times> leaderboard) list" where
  "breakoutRun js catId catObj runObj leaderboards =
     bindE (walkVariables js runObj (cat_variables catObj) [] [])
       (\<lambda>(uncategorized, usedVars, orderedVars).
         bindE (leaderboardOf js catId catObj uncategorized orderedVars)
           (\<lambda>(lbId, lbName).
             Inr (placeRun lbId catId usedVars lbName runObj leaderboards)))"

fun breakoutRuns ::
  "ecma \<Rightarrow> string \<Rightarrow> category \<Rightarrow> obj list \<Rightarrow> (string \<times> leaderboard) list
     \<Rightarrow> error + (string \<times> leaderboard) list" where
  "breakoutRuns js catId catObj [] leaderboards = Inr leaderboards"
| "breakoutRuns js catId catObj (runObj # rest) leaderboards =
     bindE (breakoutRun js catId catObj runObj leaderboards)
       (breakoutRuns js catId catObj rest)"

text \<open>
  Lines 220-278, the body of the loop over the categories.  \<open>catId\<close> is a key
  that \<^verbatim>\<open>for (catId in categories)\<close> gave, which is never \<^verbatim>\<open>__proto__\<close>.  The
  category loses its \<^verbatim>\<open>runs\<close> afterwards (line 280), which no later step reads.
\<close>

definition splitCategory ::
  "ecma \<Rightarrow> opts \<Rightarrow> string \<Rightarrow> category \<Rightarrow> (string \<times> leaderboard) list
     \<Rightarrow> error + (string \<times> leaderboard) list" where
  "splitCategory js popts catId catObj leaderboards =
     (if breakoutVariables popts
      then breakoutRuns js catId catObj (cat_runs catObj) leaderboards
      else Inr (AList.update catId
                  \<lparr>lb_id = catId, lb_categoryId = catId, lb_variables = [],
                   lb_name = cat_name catObj, lb_runs = cat_runs catObj\<rparr> leaderboards))"

section \<open>The Ranker\<close>

text \<open>Line 288: the runs that are not skipped.\<close>

definition hasTimeAndPlayer :: "obj \<Rightarrow> bool" where
  "hasTimeAndPlayer run =
     (truthy (getp (Obj run) ''timeSeconds'') \<and> truthy (getp (Obj run) ''player'')
      \<and> truthy (getp (getp (Obj run) ''player'') ''id''))"

definition playerKey :: "ecma \<Rightarrow> obj \<Rightarrow> string" where
  "playerKey js run = ToString js (getp (getp (Obj run) ''player'') ''id'')"

text \<open>
  Lines 286-291: \<^verbatim>\<open>runsByUserId\<close>.  For a player whose key names a member of
  \<^verbatim>\<open>Object.prototype\<close> the lookup finds that member, no array is made, and
  \<^verbatim>\<open>push\<close> is not a function.
\<close>

fun partitionRuns ::
  "ecma \<Rightarrow> obj list \<Rightarrow> (string \<times> obj list) list \<Rightarrow> error + (string \<times> obj list) list" where
  "partitionRuns js [] runsByUserId = Inr runsByUserId"
| "partitionRuns js (run # rest) runsByUserId =
     (if \<not> hasTimeAndPlayer run then partitionRuns js rest runsByUserId
      else case map_of runsByUserId (playerKey js run) of
             Some userRuns \<Rightarrow>
               partitionRuns js rest
                 (AList.update (playerKey js run) (userRuns @ [run]) runsByUserId)
           | None \<Rightarrow>
               if inheritedName (playerKey js run) then Inl TypeError
               else partitionRuns js rest
                      (AList.update (playerKey js run) [run] runsByUserId))"

text \<open>
  \<^verbatim>\<open>sort((a, b) => a.timeSeconds - b.timeSeconds)\<close>.  When every time is a number
  the comparison function is consistent, and the result is the one ECMAScript
  prescribes: the runs in ascending order of time, runs of equal time in the
  order they had (\<open>stableSort\<close>, by insertion; \<open>timeLe js a b\<close> says that the
  comparison of \<open>a\<close> with \<open>b\<close> is not positive).  Otherwise a comparison can give
  \<^verbatim>\<open>NaN\<close>, the function need not be consistent, and the order is the one of the
  host: the runs by the places that \<open>sortRank\<close> gives to their indices.
\<close>

definition timeLe :: "ecma \<Rightarrow> obj \<Rightarrow> obj \<Rightarrow> bool" where
  "timeLe js a b =
     (case (ToNumber js (getp (Obj a) ''timeSeconds''), ToNumber js (getp (Obj b) ''timeSeconds''))
      of (Some x, Some y) \<Rightarrow> x \<le> y
       | _ \<Rightarrow> True)"

fun insertRun :: "ecma \<Rightarrow> obj \<Rightarrow> obj list \<Rightarrow> obj list" where
  "insertRun js a [] = [a]"
| "insertRun js a (b # bs) = (if timeLe js a b then a # b # bs else b # insertRun js a bs)"

definition stableSort :: "ecma \<Rightarrow> obj list \<Rightarrow> obj list" where
  "stableSort js runs = foldr (insertRun js) runs []"

definition numericTimes :: "obj list \<Rightarrow> bool" where
  "numericTimes runs = list_all (\<lambda>run. isNum (getp (Obj run) ''timeSeconds'')) runs"

definition sortByTime :: "ecma \<Rightarrow> obj list \<Rightarrow> obj list" where
  "sortByTime js runs =
     (if numericTimes runs then stableSort js runs
      else map (\<lambda>i. runs ! i)
             (sort_key (sortRank js (map (\<lambda>run. getp (Obj run) ''timeSeconds'') runs))
                [0..<length runs]))"

text \<open>Lines 294-304: the entry of one player, none for an empty list of runs.\<close>

definition userEntry :: "ecma \<Rightarrow> opts \<Rightarrow> obj list \<Rightarrow> obj list" where
  "userEntry js popts runs =
     (let userRuns = sortByTime js runs in
      case userRuns of
        [] \<Rightarrow> []
      | entry # others \<Rightarrow>
          [if includeRunHistory popts
           then (if length userRuns > 1
                 then setp entry ''obsoleteRuns'' (Arr (map Obj (drop 1 userRuns)))
                 else setp entry ''obsoleteRuns'' (Arr []))
           else entry])"

text \<open>
  \<^verbatim>\<open>===\<close> on the times of two different runs: two arrays or two objects parsed
  from different runs are never the same object.
\<close>

fun strictEquals :: "jsval \<Rightarrow> jsval \<Rightarrow> bool" where
  "strictEquals (Arr xs) v = False"
| "strictEquals (Obj kvs) v = False"
| "strictEquals u v = (u = v)"

text \<open>
  Lines 307-315.  \<open>rankFrom i previous\<close> ranks the entries from index \<open>i \<ge> 1\<close> on,
  \<open>previous\<close> being \<^verbatim>\<open>lbEntries[i - 1]\<close> with its rank.
\<close>

fun rankFrom :: "nat \<Rightarrow> obj \<Rightarrow> obj list \<Rightarrow> obj list" where
  "rankFrom i previous [] = []"
| "rankFrom i previous (entry # rest) =
     (let ranked =
            setp entry ''rank''
              (if strictEquals (getp (Obj entry) ''timeSeconds'')
                    (getp (Obj previous) ''timeSeconds'')
               then getp (Obj previous) ''rank''
               else Num (of_nat (i + 1)))
      in ranked # rankFrom (i + 1) ranked rest)"

definition assignRanks :: "obj list \<Rightarrow> obj list" where
  "assignRanks lbEntries =
     (case lbEntries of
        [] \<Rightarrow> []
      | entry # rest \<Rightarrow>
          (let ranked = setp entry ''rank'' (Num 1) in ranked # rankFrom 1 ranked rest))"

text \<open>Lines 285-316: the ranked entries of one leaderboard.\<close>

definition lbEntriesOf :: "ecma \<Rightarrow> opts \<Rightarrow> (string \<times> obj list) list \<Rightarrow> obj list" where
  "lbEntriesOf js popts runsByUserId =
     concat (map (\<lambda>(userId, runs). userEntry js popts runs) (forIn runsByUserId))"

definition rankRuns :: "ecma \<Rightarrow> opts \<Rightarrow> obj list \<Rightarrow> error + obj list" where
  "rankRuns js popts runs =
     bindE (partitionRuns js runs [])
       (\<lambda>runsByUserId. Inr (assignRanks (sortByTime js (lbEntriesOf js popts runsByUserId))))"

section \<open>The time string as the specification words it\<close>

text \<open>
  \<open>seconds = total mod 60\<close>, \<open>rem1 = total - seconds\<close>,
  \<open>minutesRaw = rem1 mod 3600\<close>, \<open>minutes = minutesRaw / 60\<close>,
  \<open>hours = (rem1 - minutesRaw) / 3600\<close>, each field padded with zeros to two
  characters, in the arithmetic of the integers.  What \<open>mod\<close> is on a negative
  total the words leave open, so it is a parameter: the mathematical one
  (\<open>mod\<close>), or the remainder with the sign of the dividend that the source
  language has (\<open>jsRem\<close>).
\<close>

definition jsRem :: "int \<Rightarrow> int \<Rightarrow> int" where
  "jsRem a b = sgn a * (\<bar>a\<bar> mod \<bar>b\<bar>)"

definition specTime :: "(int \<Rightarrow> int \<Rightarrow> int) \<Rightarrow> int \<Rightarrow> string" where
  "specTime remainder totalSeconds =
     (let seconds = remainder totalSeconds 60;
          rem1 = totalSeconds - seconds;
          minutesRaw = remainder rem1 3600;
          minutes = minutesRaw div 60;
          hours = (rem1 - minutesRaw) div 3600
      in padStart2 (showInt hours) @ '':'' @ padStart2 (showInt minutes)
           @ '':'' @ padStart2 (showInt seconds))"

section \<open>Vocabulary of the properties of the Ranker\<close>

text \<open>
  The runs of one player in a list of runs, in the order of the list; the time
  and the rank of an entry; the time as a rational when it is a number; the
  entry the Ranker makes of the sorted runs of a player.
\<close>

definition runsOf :: "ecma \<Rightarrow> string \<Rightarrow> obj list \<Rightarrow> obj list" where
  "runsOf js userId runs =
     filter (\<lambda>run. hasTimeAndPlayer run \<and> playerKey js run = userId) runs"

definition timeOf :: "obj \<Rightarrow> jsval" where
  "timeOf run = getp (Obj run) ''timeSeconds''"

definition rankOf :: "obj \<Rightarrow> jsval" where
  "rankOf entry = getp (Obj entry) ''rank''"

definition timeValue :: "obj \<Rightarrow> rat" where
  "timeValue run = numOf (timeOf run)"

definition withHistory :: "opts \<Rightarrow> obj list \<Rightarrow> obj" where
  "withHistory popts userRuns =
     (if includeRunHistory popts
      then setp (hd userRuns) ''obsoleteRuns'' (Arr (map Obj (tl userRuns)))
      else hd userRuns)"

text \<open>
  An entry and the same entry with its rank; the number of entries that are
  strictly faster than an entry; the entries of a leaderboard before they are
  sorted and ranked.
\<close>

definition ranked :: "obj \<Rightarrow> obj \<Rightarrow> bool" where
  "ranked entry entry' = (\<exists>r. entry' = setp entry ''rank'' (Num r))"

definition fasterThan :: "obj \<Rightarrow> obj list \<Rightarrow> nat" where
  "fasterThan entry entries = length (filter (\<lambda>e. timeValue e < timeValue entry) entries)"

definition unrankedEntries :: "ecma \<Rightarrow> opts \<Rightarrow> obj list \<Rightarrow> (string \<times> obj list) list \<Rightarrow> obj list" where
  "unrankedEntries js popts runs m =
     map (\<lambda>kv. withHistory popts (sortByTime js (runsOf js (fst kv) runs))) (forIn m)"

section \<open>Vocabulary of the properties of the Builder\<close>

text \<open>
  What line 227 finds for a variable in the \<^verbatim>\<open>variables\<close> of a run, and the test
  of lines 227-234 that the walk makes of it: the two lookups are truthy.
\<close>

definition runValue :: "ecma \<Rightarrow> obj \<Rightarrow> variable \<Rightarrow> jsval" where
  "runValue js runObj catVariable =
     getMember js (getp (Obj runObj) ''variables'') (ToString js (var_id catVariable))"

definition categorized :: "ecma \<Rightarrow> obj \<Rightarrow> variable \<Rightarrow> bool" where
  "categorized js runObj catVariable =
     (truthy (runValue js runObj catVariable)
      \<and> truthy (getMember js (Obj (var_values catVariable))
                  (ToString js (runValue js runObj catVariable))))"

text \<open>
  What a variable with a recognized value adds to the id of the leaderboard,
  the label of that value, and what the variables from position \<open>i\<close> on add to
  the name.
\<close>

definition idPart :: "ecma \<Rightarrow> obj \<Rightarrow> variable \<Rightarrow> string" where
  "idPart js runObj catVariable =
     ''$'' @ ToString js (var_id catVariable) @ ''^''
       @ ToString js (runValue js runObj catVariable)"

definition labelOf :: "ecma \<Rightarrow> obj \<Rightarrow> variable \<Rightarrow> string" where
  "labelOf js runObj catVariable =
     ToString js (getp (getMember js (Obj (var_values catVariable))
                          (ToString js (runValue js runObj catVariable))) ''label'')"

fun nameParts :: "ecma \<Rightarrow> obj \<Rightarrow> nat \<Rightarrow> variable list \<Rightarrow> string" where
  "nameParts js runObj i [] = []"
| "nameParts js runObj i (catVariable # rest) =
     (if i = 0 then '' - '' else '', '') @ labelOf js runObj catVariable
       @ nameParts js runObj (i + 1) rest"

section \<open>Sample inputs\<close>

text \<open>
  The options of a call without flags; a host that prints the members of
  \<^verbatim>\<open>Object.prototype\<close> as Node does, and whose other parameters are never
  consulted for numeric times below \<open>2^53\<close>, string identifiers and recorded values
  that are plain objects; an upstream that answers no request; and
  a verified raw run of a guest player as the API gives it (without examiner,
  videos and platform, for which the Normalizer then makes no request).
\<close>

definition defaultOptions :: opts where
  "defaultOptions =
     \<lparr>breakoutVariables = False, includeUnverifiedRuns = False, includeRunHistory = False\<rparr>"

definition historyOptions :: opts where
  "historyOptions =
     \<lparr>breakoutVariables = False, includeUnverifiedRuns = False, includeRunHistory = True\<rparr>"

definition plainEcma :: ecma where
  "plainEcma =
     \<lparr>numberToString = (\<lambda>n. []), stringToNumber = (\<lambda>s. None),
      builtinToString =
        (\<lambda>k. if k = ''__proto__'' then ''[object Object]''
             else ''function '' @ (if k = ''constructor'' then ''Object'' else k)
                    @ ''() { [native code] }''),
      prototypeMember = (\<lambda>v k. Undefined), sortRank = (\<lambda>times i. i)\<rparr>"

definition offline :: api where
  "offline path = Inl RequestFailed"

definition guestRun :: "string \<Rightarrow> string \<Rightarrow> rat \<Rightarrow> jsval" where
  "guestRun runId guest t =
     Obj [(''id'', Str runId),
          (''status'', Obj [(''status'', Str ''verified'')]),
          (''times'', Obj [(''primary_t'', Num t)]),
          (''players'', Arr [Obj [(''rel'', Str ''guest''), (''name'', Str guest)]])]"

text \<open>What the Normalizer makes of \<open>guestRun\<close> when it keeps it.\<close>

definition keptRun :: "string \<Rightarrow> string \<Rightarrow> rat \<Rightarrow> string \<Rightarrow> obj" where
  "keptRun runId guest t time =
     [(''id'', Str runId), (''comment'', Undefined), (''submitTime'', Undefined),
      (''status'', Str ''verified''), (''variables'', Obj []),
      (''time'', Str time), (''timeSeconds'', Num t),
      (''verifyTime'', Undefined), (''verifier'', Undefined),
      (''player'', Obj [(''rel'', Str ''guest''), (''id'', Str guest), (''name'', Str guest)])]"

text \<open>
  Lists of runs for the Ranker: three players, two of them tied; three runs of
  one player; three players whose times are within the same second, two of
  them tied, the slowest first; and the runs of
  one player among a run without player (as the Normalizer leaves a run of two
  players) and a run without time.
\<close>

definition tiedRuns :: "obj list" where
  "tiedRuns =
     [keptRun ''a'' ''alice'' 10 ''00:00:10'', keptRun ''b'' ''bob'' 10 ''00:00:10'',
      keptRun ''c'' ''carol'' 20 ''00:00:20'']"


definition closeRuns :: "obj list" where
  "closeRuns =
     [keptRun ''r1'' ''alice'' (107 / 10) ''00:00:10'', keptRun ''r2'' ''bob'' (51 / 5) ''00:00:10'',
      keptRun ''r3'' ''carol'' (51 / 5) ''00:00:10'']"

definition teamRun :: "string \<Rightarrow> rat \<Rightarrow> string \<Rightarrow> obj" where
  "teamRun runId t time =
     [(''id'', Str runId), (''comment'', Undefined), (''submitTime'', Undefined),
      (''status'', Str ''verified''), (''variables'', Obj []),
      (''time'', Str time), (''timeSeconds'', Num t),
      (''verifyTime'', Undefined), (''verifier'', Undefined)]"

definition untimedRun :: "string \<Rightarrow> string \<Rightarrow> obj" where
  "untimedRun runId guest =
     [(''id'', Str runId),
      (''player'', Obj [(''rel'', Str ''guest''), (''id'', Str guest), (''name'', Str guest)])]"

definition mixedRuns :: "obj list" where
  "mixedRuns =
     [teamRun ''t'' 5 ''00:00:05'', keptRun ''a'' ''alice'' 15 ''00:00:15'',
      untimedRun ''u'' ''alice'', keptRun ''b'' ''alice'' 10 ''00:00:10'']"

text \<open>
  A category with the two variables \<open>V1\<close> and \<open>V2\<close>, in this order, and a run
  that records the given values.
\<close>

definition variable1 :: variable where
  "variable1 =
     \<lparr>var_id = Str ''V1'', var_name = Str ''Difficulty'',
      var_values = [(''A'', Obj [(''label'', Str ''Easy''), (''rules'', Null)]),
                    (''A2'', Obj [(''label'', Str ''Hard''), (''rules'', Null)])]\<rparr>"

definition variable2 :: variable where
  "variable2 =
     \<lparr>var_id = Str ''V2'', var_name = Str ''Version'',
      var_values = [(''B'', Obj [(''label'', Str ''1.0''), (''rules'', Null)])]\<rparr>"

definition sampleCategory :: category where
  "sampleCategory =
     \<lparr>cat_id = Str ''cat'', cat_name = Str ''Any%'', cat_rules = Null,
      cat_variables = [variable1, variable2], cat_runs = []\<rparr>"

definition variedRun :: "string \<Rightarrow> obj \<Rightarrow> obj" where
  "variedRun runId recorded = [(''id'', Str runId), (''variables'', Obj recorded)]"

section \<open>Properties of the values\<close>

lemma map_of_setp [simp]:
  "map_of (setp ob k v) = (if k = ''__proto__'' then map_of ob else (map_of ob)(k \<mapsto> v))"
  by (simp add: setp_def update_conv')

lemma getp_setp:
  "k \<noteq> ''__proto__'' \<Longrightarrow>
   getp (Obj (setp ob k v)) k' = (if k' = k then v else getp (Obj ob) k')"
  by simp

lemma getMember_own: "map_of kvs k = Some v \<Longrightarrow> getMember js (Obj kvs) k = v"
  by (simp add: getMember_def)

lemma getMember_inherited:
  "map_of kvs k = None \<Longrightarrow>
   getMember js (Obj kvs) k = (if inheritedName k then Builtin k else Undefined)"
  by (simp add: getMember_def)

lemma bindE_Inr_iff:
  "bindE m f = Inr y \<longleftrightarrow> (\<exists>x. m = Inr x \<and> f x = Inr y)"
  by (cases m) (simp_all add: bindE_def)

section \<open>Properties of the Normalizer\<close>

lemma setVerifier_getp:
  assumes "setVerifier js request raw ob = Inr ob'" "k \<noteq> ''verifyTime''" "k \<noteq> ''verifier''"
  shows "getp (Obj ob') k = getp (Obj ob) k"
  using assms unfolding setVerifier_def
  by (auto simp: bindE_Inr_iff split: if_splits)

lemma setVideos_getp:
  assumes "setVideos raw ob = Inr ob'" "k \<noteq> ''videos''"
  shows "getp (Obj ob') k = getp (Obj ob) k"
  using assms unfolding setVideos_def Let_def
  by (auto simp: bindE_Inr_iff split: if_splits jsval.splits)

lemma setPlatform_getp:
  assumes "setPlatform js request raw ob = Inr ob'" "k \<noteq> ''platform''"
  shows "getp (Obj ob') k = getp (Obj ob) k"
  using assms unfolding setPlatform_def Let_def
  by (auto simp: bindE_Inr_iff split: if_splits)

lemma setPlayer_getp:
  assumes "setPlayer js request raw ob = Inr ob'" "k \<noteq> ''player''"
  shows "getp (Obj ob') k = getp (Obj ob) k"
  using assms unfolding setPlayer_def Let_def
  by (auto simp: bindE_Inr_iff split: if_splits)

lemma setTimes_getp:
  "getp (Obj (setTimes js raw ob)) ''timeSeconds'' =
     (if truthy (getp raw ''times'') \<and> truthy (primaryTime raw) then primaryTime raw
      else getp (Obj ob) ''timeSeconds'')"
  "getp (Obj (setTimes js raw ob)) ''time'' =
     (if truthy (getp raw ''times'') \<and> truthy (primaryTime raw)
      then Str (formatTime js (Math_floor js (primaryTime raw)))
      else getp (Obj ob) ''time'')"
  "getp (Obj (setTimes js raw ob)) ''status'' = getp (Obj ob) ''status''"
  by (simp_all add: setTimes_def Let_def primaryTime_def)

text \<open>A run that is kept has passed every stage of \<open>processRun\<close>.\<close>

lemma processRun_stages:
  assumes "processRun js popts request raw = Inr (Some run)"
  shows "truthy raw \<and> \<not> nullish (getp raw ''status'') \<and> truthy (rawStatus raw)
     \<and> (includeUnverifiedRuns popts \<or> rawStatus raw = Str ''verified'')
     \<and> truthy (getp (Obj (setTimes js raw (newRunObj raw (rawStatus raw)))) ''timeSeconds'')
     \<and> (\<exists>ob2 ob3 ob4.
           setVerifier js request raw (setTimes js raw (newRunObj raw (rawStatus raw))) = Inr ob2
         \<and> setVideos raw ob2 = Inr ob3
         \<and> setPlatform js request raw ob3 = Inr ob4
         \<and> setPlayer js request raw ob4 = Inr run)"
proof -
  from assms have t: "truthy raw"
    by (auto simp: processRun_def split: if_splits)
  with assms have n: "\<not> nullish (getp raw ''status'')"
    by (auto simp: processRun_def readProp_def bindE_def split: if_splits)
  have st: "getp (Obj (newRunObj raw s)) ''status'' = s" for s
    by (simp add: newRunObj_def)
  from assms t n show ?thesis
    unfolding processRun_def readProp_def rawStatus_def
    by (simp add: bindE_def Let_def st del: getp.simps split: if_splits sum.splits)
qed

lemma processRun_retained:
  assumes "processRun js popts request raw = Inr (Some run)"
  shows "truthy raw"
    and "\<not> nullish (getp raw ''status'')"
    and "truthy (rawStatus raw)"
    and "includeUnverifiedRuns popts \<or> rawStatus raw = Str ''verified''"
    and "truthy (getp raw ''times'')"
    and "truthy (primaryTime raw)"
    and "getp (Obj run) ''status'' = rawStatus raw"
    and "getp (Obj run) ''timeSeconds'' = primaryTime raw"
    and "getp (Obj run) ''time'' = Str (formatTime js (Math_floor js (primaryTime raw)))"
proof -
  let ?ob1 = "setTimes js raw (newRunObj raw (rawStatus raw))"
  from processRun_stages[OF assms] obtain ob2 ob3 ob4 where
    s: "truthy raw" "\<not> nullish (getp raw ''status'')" "truthy (rawStatus raw)"
       "includeUnverifiedRuns popts \<or> rawStatus raw = Str ''verified''"
       "truthy (getp (Obj ?ob1) ''timeSeconds'')"
    and st: "setVerifier js request raw ?ob1 = Inr ob2" "setVideos raw ob2 = Inr ob3"
       "setPlatform js request raw ob3 = Inr ob4" "setPlayer js request raw ob4 = Inr run"
    by blast
  have keep: "getp (Obj run) k = getp (Obj ?ob1) k"
    if "k \<noteq> ''verifyTime''" "k \<noteq> ''verifier''" "k \<noteq> ''videos''" "k \<noteq> ''platform''"
       "k \<noteq> ''player''" for k
    using setVerifier_getp[OF st(1) that(1,2)] setVideos_getp[OF st(2) that(3)]
      setPlatform_getp[OF st(3) that(4)] setPlayer_getp[OF st(4) that(5)]
    by simp
  have init: "getp (Obj (newRunObj raw (rawStatus raw))) ''timeSeconds'' = Undefined"
    "getp (Obj (newRunObj raw (rawStatus raw))) ''status'' = rawStatus raw"
    by (simp_all add: newRunObj_def)
  from s(5) have tt: "truthy (getp raw ''times'') \<and> truthy (primaryTime raw)"
    by (simp add: setTimes_getp init del: getp.simps split: if_splits)
  show "truthy raw" "\<not> nullish (getp raw ''status'')" "truthy (rawStatus raw)"
    "includeUnverifiedRuns popts \<or> rawStatus raw = Str ''verified''"
    using s by blast+
  show "truthy (getp raw ''times'')" "truthy (primaryTime raw)" using tt by blast+
  show "getp (Obj run) ''status'' = rawStatus raw"
    by (simp add: keep setTimes_getp(3) init del: getp.simps)
  show "getp (Obj run) ''timeSeconds'' = primaryTime raw"
    using tt by (simp add: keep setTimes_getp(1) del: getp.simps)
  show "getp (Obj run) ''time'' = Str (formatTime js (Math_floor js (primaryTime raw)))"
    using tt by (simp add: keep setTimes_getp(2) del: getp.simps)
qed






lemma processRun_rejects_without_time:
  assumes "\<not> (truthy (getp raw ''times'') \<and> truthy (primaryTime raw))"
  shows "processRun js popts request raw =
           (if truthy raw \<and> nullish (getp raw ''status'') then Inl TypeError else Inr None)"
proof -
  have "setTimes js raw ob = ob" for ob
    using assms by (auto simp: setTimes_def primaryTime_def Let_def)
  then show ?thesis
    unfolding processRun_def readProp_def by (simp add: bindE_def Let_def newRunObj_def)
qed

lemma arrayIndex_0: "arrayIndex ''0'' = Some 0"
  by code_simp

lemma arrayIndex_status: "arrayIndex ''status'' = None"
  by code_simp

lemma Math_floor_Num [simp]: "Math_floor js (Num t) = Some \<lfloor>t\<rfloor>"
  by (simp add: Math_floor_def)

lemma floor_half: "\<lfloor>1 / 2 :: rat\<rfloor> = 0"
  by (simp add: floor_eq_iff)

text \<open>
  Double precision is exact on the integers of magnitude up to \<open>2^53\<close>: their
  differences, remainders and exact quotients are the ones of the integers.
\<close>

lemma roundHalfEven_of_int [simp]: "roundHalfEven (of_int n) = n"
  by (simp add: roundHalfEven_def)

lemma bitlen_pos: "0 < x \<Longrightarrow> 1 \<le> bitlen x"
  using bitlen_nonneg[of "x div 2"] by (subst compute_bitlen) simp

lemma binade_of_int:
  assumes "n \<noteq> 0"
  shows "binade (of_int n) = bitlen \<bar>n\<bar> - 1" and "2 ^ nat (bitlen \<bar>n\<bar> - 1) \<le> \<bar>n\<bar>"
proof -
  from assms have p: "0 < \<bar>n\<bar>" by simp
  from bitlen_bounds[OF p] show b: "2 ^ nat (bitlen \<bar>n\<bar> - 1) \<le> \<bar>n\<bar>" by simp
  from p have g: "1 \<le> bitlen \<bar>n\<bar>"
    by (rule bitlen_pos)
  have q: "quotient_of \<bar>rat_of_int n\<bar> = (\<bar>n\<bar>, 1)"
    by (metis of_int_abs quotient_of_int Rat.of_int_def)
  have one: "bitlen 1 = 1"
    by (subst compute_bitlen) simp
  have "pow2 (bitlen \<bar>n\<bar> - 1) \<le> \<bar>rat_of_int n\<bar>"
  proof -
    have "pow2 (bitlen \<bar>n\<bar> - 1) = of_int (2 ^ nat (bitlen \<bar>n\<bar> - 1))"
      using g by (simp add: pow2_def)
    also have "\<dots> \<le> of_int \<bar>n\<bar>"
      using b by (simp only: of_int_le_iff)
    finally show ?thesis by simp
  qed
  then show "binade (of_int n) = bitlen \<bar>n\<bar> - 1"
    by (simp add: binade_def q one)
qed

lemma roundDouble_of_int:
  assumes "\<bar>n\<bar> \<le> 2 ^ 53"
  shows "roundDouble (of_int n) = of_int n"
proof (cases "n = 0")
  case True
  then show ?thesis by (simp add: roundDouble_def)
next
  case False
  let ?e = "bitlen \<bar>n\<bar> - 1"
  note b = binade_of_int[OF False]
  from False have p: "0 < \<bar>n\<bar>" by simp
  then have g: "0 \<le> ?e"
    using bitlen_pos[of "\<bar>n\<bar>"] by simp
  from b(2) assms have "(2::int) ^ nat ?e \<le> 2 ^ 53" by (rule order_trans)
  then have le: "nat ?e \<le> 53" by (rule power_le_imp_le_exp[rotated]) simp
  show ?thesis
  proof (cases "nat ?e = 53")
    case True
    from b(2) have "(2::int) ^ 53 \<le> \<bar>n\<bar>" unfolding True .
    with assms have n: "\<bar>n\<bar> = 2 ^ 53" by (rule order_antisym)
    from True g have e: "?e = 53" by simp
    from n have "even n" by (metis abs_numeral dvd_abs_iff even_numeral even_power zero_less_numeral)
    then obtain m where m: "n = 2 * m" by (rule evenE)
    have be: "binade (rat_of_int n) - 52 = 1"
      using b(1) e by simp
    have d: "rat_of_int n / pow2 1 = of_int m"
      by (simp add: pow2_def m)
    have "roundDouble (rat_of_int n) = of_int (roundHalfEven (rat_of_int n / pow2 1)) * pow2 1"
      using \<open>n \<noteq> 0\<close> by (simp add: roundDouble_def be Let_def)
    also have "\<dots> = of_int m * pow2 1"
      by (simp only: d roundHalfEven_of_int)
    also have "\<dots> = rat_of_int n"
      by (simp add: pow2_def m)
    finally show ?thesis .
  next
    case False
    with le have l: "?e \<le> 52" by simp
    have d: "rat_of_int n / pow2 (?e - 52) = of_int (n * 2 ^ nat (52 - ?e))"
      using l by (auto simp: pow2_def)
    have "roundDouble (rat_of_int n)
        = of_int (roundHalfEven (rat_of_int n / pow2 (?e - 52))) * pow2 (?e - 52)"
      using \<open>n \<noteq> 0\<close> by (simp add: roundDouble_def b(1) Let_def)
    also have "\<dots> = of_int (n * 2 ^ nat (52 - ?e)) * pow2 (?e - 52)"
      by (simp only: d roundHalfEven_of_int)
    also have "\<dots> = rat_of_int n"
      using l by (auto simp: pow2_def)
    finally show ?thesis .
  qed
qed

lemma jsRem_nonneg: "0 \<le> a \<Longrightarrow> 0 < b \<Longrightarrow> jsRem a b = a mod b"
  by (cases "a = 0") (simp_all add: jsRem_def)

lemma minus_jsRem: "a - jsRem a b = sgn a * (\<bar>a\<bar> - \<bar>a\<bar> mod \<bar>b\<bar>)"
  by (simp add: jsRem_def right_diff_distrib mult.commute abs_sgn)

lemma dvd_minus_jsRem: "b dvd a - jsRem a b"
proof -
  have "\<bar>b\<bar> dvd \<bar>a\<bar> - \<bar>a\<bar> mod \<bar>b\<bar>"
    by (simp add: minus_mod_eq_mult_div)
  then have "\<bar>b\<bar> dvd sgn a * (\<bar>a\<bar> - \<bar>a\<bar> mod \<bar>b\<bar>)"
    by (rule dvd_mult)
  moreover have "sgn a * (\<bar>a\<bar> - \<bar>a\<bar> mod \<bar>b\<bar>) = a - jsRem a b"
    by (simp add: minus_jsRem)
  ultimately show ?thesis
    by simp
qed

lemma mod_abs_bounds: "0 \<le> \<bar>a\<bar> mod \<bar>b\<bar>" "\<bar>a\<bar> mod \<bar>b\<bar> \<le> \<bar>a :: int\<bar>"
  by (cases "b = 0"; simp add: zmod_le_nonneg_dividend)+

lemma abs_jsRem_le: "\<bar>jsRem a b\<bar> \<le> \<bar>a\<bar>"
  using mod_abs_bounds[of a b] by (cases "a = 0") (simp_all add: jsRem_def abs_mult)

lemma abs_minus_jsRem_le: "\<bar>a - jsRem a b\<bar> \<le> \<bar>a\<bar>"
  using mod_abs_bounds[of a b] by (cases "a = 0") (simp_all add: minus_jsRem abs_mult)

lemma truncation_of_int:
  assumes "0 < b"
  shows "truncation (of_int a / of_int b) = sgn a * (\<bar>a\<bar> div b)"
proof (cases "0 \<le> a")
  case True
  with assms have "\<not> rat_of_int a / rat_of_int b < 0"
    by (simp add: divide_less_0_iff)
  with True show ?thesis
    by (cases "a = 0") (simp_all add: truncation_def floor_divide_of_int_eq)
next
  case False
  with assms have n: "rat_of_int a / rat_of_int b < 0"
    by (simp add: divide_less_0_iff)
  have "\<lfloor>- (rat_of_int a / rat_of_int b)\<rfloor> = \<lfloor>rat_of_int (- a) / rat_of_int b\<rfloor>"
    by simp
  also have "\<dots> = (- a) div b"
    by (simp only: floor_divide_of_int_eq)
  finally show ?thesis
    using False n by (simp add: truncation_def)
qed

lemma jsRemainder_of_int:
  assumes "0 < b"
  shows "jsRemainder (of_int a) (of_int b) = of_int (jsRem a b)"
proof -
  have "\<bar>a\<bar> mod b = \<bar>a\<bar> - b * (\<bar>a\<bar> div b)"
    by (simp add: minus_mult_div_eq_mod)
  then have "jsRem a b = a - b * (sgn a * (\<bar>a\<bar> div b))"
    using assms by (simp add: jsRem_def right_diff_distrib mult.commute abs_sgn mult.left_commute)
  then show ?thesis
    by (simp add: jsRemainder_def truncation_of_int[OF assms])
qed

lemma jsMinus_of_int:
  "\<bar>a - b\<bar> \<le> 2 ^ 53 \<Longrightarrow> jsMinus (of_int a) (of_int b) = of_int (a - b)"
  using roundDouble_of_int[of "a - b"] by (simp add: jsMinus_def)

lemma jsDivide_of_int:
  assumes "b dvd a" and "b \<noteq> 0" and "\<bar>a\<bar> \<le> 2 ^ 53"
  shows "jsDivide (of_int a) (of_int b) = of_int (a div b)" and "\<bar>a div b\<bar> \<le> 2 ^ 53"
proof -
  from assms(1) obtain c where c: "a = b * c" ..
  with assms(2) have d: "a div b = c" by simp
  have "1 \<le> \<bar>b\<bar>"
    using assms(2) by linarith
  then have "1 * \<bar>c\<bar> \<le> \<bar>b\<bar> * \<bar>c\<bar>"
    by (rule mult_right_mono) simp
  then have "\<bar>c\<bar> \<le> \<bar>b\<bar> * \<bar>c\<bar>"
    by simp
  also have "\<dots> = \<bar>a\<bar>" by (simp add: c abs_mult)
  finally show le: "\<bar>a div b\<bar> \<le> 2 ^ 53"
    using assms(3) d by simp
  have "rat_of_int a / rat_of_int b = of_int c"
    using assms(2) by (simp add: c)
  then show "jsDivide (of_int a) (of_int b) = of_int (a div b)"
    using roundDouble_of_int[OF le] by (simp add: jsDivide_def d)
qed

lemma ToString_of_int: "\<bar>k\<bar> \<le> 2 ^ 53 \<Longrightarrow> ToString js (Num (of_int k)) = showInt k"
proof -
  assume "\<bar>k\<bar> \<le> 2 ^ 53"
  then have "\<bar>rat_of_int k\<bar> \<le> of_int (2 ^ 53)"
    by (simp only: of_int_abs[symmetric] of_int_le_iff)
  then show ?thesis by simp
qed

text \<open>
  The arithmetic of lines 130-135.  What is subtracted is a remainder, so both
  divisions are exact on the integers, and up to \<open>2^53\<close> the time string of the
  code is the one of the arithmetic of the integers.
\<close>

lemma formatTime_divisions_exact:
  fixes unresolvedTime0 :: int
  defines "unresolvedTime1 \<equiv> unresolvedTime0 - jsRem unresolvedTime0 60"
  defines "minutes0 \<equiv> jsRem unresolvedTime1 3600"
  shows "60 dvd minutes0" and "3600 dvd unresolvedTime1 - minutes0"
proof -
  have u: "60 dvd unresolvedTime1"
    unfolding unresolvedTime1_def by (rule dvd_minus_jsRem)
  show "3600 dvd unresolvedTime1 - minutes0"
    unfolding minutes0_def by (rule dvd_minus_jsRem)
  then have "60 dvd unresolvedTime1 - minutes0"
    by (rule dvd_trans[rotated]) simp
  with u show "60 dvd minutes0"
    by (metis dvd_diff diff_diff_eq2 add_diff_cancel_left' minus_diff_eq dvd_minus_iff)
qed

lemma formatTime_specTime:
  assumes "\<bar>n\<bar> \<le> 2 ^ 53"
  shows "formatTime js (Some n) = specTime jsRem n"
proof -
  define s where "s = jsRem n 60"
  define u1 where "u1 = n - s"
  define m0 where "m0 = jsRem u1 3600"
  define u2 where "u2 = u1 - m0"
  have bs: "\<bar>s\<bar> \<le> 2 ^ 53"
    unfolding s_def using abs_jsRem_le[of n 60] assms by (rule order_trans)
  have b1: "\<bar>u1\<bar> \<le> 2 ^ 53"
    unfolding u1_def s_def using abs_minus_jsRem_le[of n 60] assms by (rule order_trans)
  have bm: "\<bar>m0\<bar> \<le> 2 ^ 53"
    unfolding m0_def using abs_jsRem_le[of u1 3600] b1 by (rule order_trans)
  have b2: "\<bar>u2\<bar> \<le> 2 ^ 53"
    unfolding u2_def m0_def using abs_minus_jsRem_le[of u1 3600] b1 by (rule order_trans)
  have d1: "60 dvd m0" and d2: "3600 dvd u2"
    using formatTime_divisions_exact[of n] by (simp_all add: m0_def u1_def s_def u2_def)
  have e1: "jsRemainder (of_int n) 60 = of_int s"
    using jsRemainder_of_int[of 60 n] by (simp add: s_def)
  have e2: "jsMinus (of_int n) (of_int s) = of_int u1"
    using jsMinus_of_int[of n s] b1 by (simp add: u1_def)
  have e3: "jsRemainder (of_int u1) 3600 = of_int m0"
    using jsRemainder_of_int[of 3600 u1] by (simp add: m0_def)
  have e4: "jsMinus (of_int u1) (of_int m0) = of_int u2"
    using jsMinus_of_int[of u1 m0] b2 by (simp add: u2_def)
  have e5: "jsDivide (of_int m0) 60 = of_int (m0 div 60)" and b5: "\<bar>m0 div 60\<bar> \<le> 2 ^ 53"
    using jsDivide_of_int[OF d1 _ bm] by simp_all
  have e6: "jsDivide (of_int u2) 3600 = of_int (u2 div 3600)" and b6: "\<bar>u2 div 3600\<bar> \<le> 2 ^ 53"
    using jsDivide_of_int[OF d2 _ b2] by simp_all
  have "timeFields (of_int n) = (of_int (u2 div 3600), of_int (m0 div 60), of_int s)"
    unfolding timeFields_def Let_def
    by (simp only: e1 e2 e3 e4 e5 e6)
  then have "formatTime js (Some n) =
      padStart2 (showInt (u2 div 3600)) @ '':'' @ padStart2 (showInt (m0 div 60))
        @ '':'' @ padStart2 (showInt s)"
    unfolding formatTime_def option.case
    by (simp only: prod.case ToString_of_int[OF bs] ToString_of_int[OF b5]
        ToString_of_int[OF b6])
  also have "\<dots> = specTime jsRem n"
    by (simp add: specTime_def Let_def s_def u1_def m0_def u2_def)
  finally show ?thesis .
qed

lemma formatTime_examples:
  "formatTime js (Some 0) = ''00:00:00''" "formatTime js (Some (-5)) = ''00:00:-5''"
  "formatTime js (Some 10) = ''00:00:10''" "formatTime js (Some 3661) = ''01:01:01''"
  "formatTime js (Some 59) = ''00:00:59''" "formatTime js (Some 7200) = ''02:00:00''"
  by (subst formatTime_specTime, simp, code_simp)+

text \<open>
  Beyond \<open>2^53\<close> the subtractions round.  For \<open>10^17\<close> seconds the difference of
  line 131 is no multiple of 60 any more and the minutes have a fraction; for
  18446744073710161920 seconds the three fields are integers and the hours are
  one more than the arithmetic of the integers gives.
\<close>

lemma timeFields_rounds:
  "timeFields (10 ^ 17) = (27777777777777, 6492689462792465 / 140737488355328, 40)"
  by code_simp

lemma floor_minutes_rounds:
  "of_int \<lfloor>6492689462792465 / 140737488355328 :: rat\<rfloor>
     \<noteq> (6492689462792465 / 140737488355328 :: rat)"
  by code_simp

lemma formatTime_rounds:
  "formatTime js (Some 100000000000000000) =
     ''27777777777777:'' @ padStart2 (numberToString js (6492689462792465 / 140737488355328)) @ '':40''"
proof -
  have h: "ToString js (Num 27777777777777) = ''27777777777777''"
     and s: "ToString js (Num 40) = ''40''"
    by code_simp+
  have m: "ToString js (Num (6492689462792465 / 140737488355328))
      = numberToString js (6492689462792465 / 140737488355328)"
    using floor_minutes_rounds by (simp only: ToString.simps if_False simp_thms)
  have t: "timeFields (of_int 100000000000000000)
      = (27777777777777, 6492689462792465 / 140737488355328, 40)"
    by code_simp
  have p: "padStart2 ''27777777777777'' = ''27777777777777''" "padStart2 ''40'' = ''40''"
    by code_simp+
  show ?thesis
    unfolding formatTime_def option.case t prod.case h s m p
    by simp
qed

lemma formatTime_large:
  "formatTime js (Some 18446744073710161920) = ''5124095576030601:32:00''"
  by code_simp

lemma specTime_large:
  "specTime (mod) 18446744073710161920 = ''5124095576030600:32:00''"
  by code_simp

text \<open>The Normalizer on the sample run.\<close>

lemma processRun_guestRun:
  "t \<noteq> 0 \<Longrightarrow> processRun js defaultOptions request (guestRun runId guest t)
     = Inr (Some (keptRun runId guest t (formatTime js (Some \<lfloor>t\<rfloor>))))"
  by (simp add: processRun_def guestRun_def keptRun_def defaultOptions_def readProp_def
      nullish_def bindE_def newRunObj_def setTimes_def setVerifier_def setVideos_def
      setPlatform_def setPlayer_def getUsername_def arrayIndex_0 setp_def Let_def)

lemma specTime_nonneg:
  assumes "0 \<le> n"
  shows "specTime jsRem n = specTime (mod) n"
proof -
  have s: "jsRem n 60 = n mod 60"
    using assms by (simp add: jsRem_nonneg)
  have "n mod 60 \<le> n"
    using assms by (simp add: zmod_le_nonneg_dividend)
  then have "jsRem (n - n mod 60) 3600 = (n - n mod 60) mod 3600"
    by (simp add: jsRem_nonneg)
  with s show ?thesis
    by (simp add: specTime_def Let_def)
qed

lemma specTime_examples:
  "specTime (mod) 3661 = ''01:01:01''" "specTime (mod) 59 = ''00:00:59''"
  "specTime (mod) 7200 = ''02:00:00''"
  by code_simp+

section \<open>Properties of the Ranker\<close>

lemma runsOf_Nil [simp]: "runsOf js k [] = []"
  by (simp add: runsOf_def)

lemma runsOf_Cons:
  "runsOf js k (run # rest) =
     (if hasTimeAndPlayer run \<and> playerKey js run = k then run # runsOf js k rest
      else runsOf js k rest)"
  by (simp add: runsOf_def)

lemma partitionRuns_map_of:
  "partitionRuns js runs acc = Inr m \<Longrightarrow>
   map_of m k =
     (case map_of acc k of
        Some a \<Rightarrow> Some (a @ runsOf js k runs)
      | None \<Rightarrow> if runsOf js k runs = [] then None else Some (runsOf js k runs))"
proof (induction runs arbitrary: acc)
  case Nil
  then show ?case by (simp split: option.splits)
next
  case (Cons run rest)
  show ?case
  proof (cases "hasTimeAndPlayer run")
    case False
    with Cons.prems have "partitionRuns js rest acc = Inr m" by simp
    from Cons.IH[OF this] False show ?thesis
      by (simp add: runsOf_Cons split: option.splits)
  next
    case True
    show ?thesis
    proof (cases "map_of acc (playerKey js run)")
      case None
      with True Cons.prems
      have "partitionRuns js rest (AList.update (playerKey js run) [run] acc) = Inr m"
        by (simp split: if_splits)
      from Cons.IH[OF this] True None show ?thesis
        by (auto simp: runsOf_Cons update_conv' split: option.splits)
    next
      case (Some a)
      with True Cons.prems
      have "partitionRuns js rest (AList.update (playerKey js run) (a @ [run]) acc) = Inr m"
        by simp
      from Cons.IH[OF this] True Some show ?thesis
        by (auto simp: runsOf_Cons update_conv' split: option.splits)
    qed
  qed
qed

lemma partitionRuns_distinct:
  "partitionRuns js runs acc = Inr m \<Longrightarrow> distinct (map fst acc) \<Longrightarrow> distinct (map fst m)"
proof (induction runs arbitrary: acc)
  case Nil
  then show ?case by simp
next
  case (Cons run rest)
  then show ?case
    by (auto simp: distinct_update split: if_splits option.splits)
qed

lemma partitionRuns_empty:
  assumes "partitionRuns js runs [] = Inr m"
  shows "distinct (map fst m)"
    and "map_of m k = (if runsOf js k runs = [] then None else Some (runsOf js k runs))"
  using partitionRuns_distinct[OF assms] partitionRuns_map_of[OF assms, of k] by simp_all

lemma mset_forIn: "mset (forIn d) = mset d"
  by (simp add: forIn_def)

lemma mset_insertRun: "mset (insertRun js a bs) = add_mset a (mset bs)"
  by (induction bs) simp_all

lemma stableSort_Cons: "stableSort js (a # as) = insertRun js a (stableSort js as)"
  by (simp add: stableSort_def)

lemma stableSort_Nil [simp]: "stableSort js [] = []"
  by (simp add: stableSort_def)

lemma mset_stableSort: "mset (stableSort js xs) = mset xs"
  by (induction xs) (simp_all add: stableSort_Cons mset_insertRun)

lemma sortByTime_Nil [simp]: "sortByTime js [] = []"
  by (simp add: sortByTime_def numericTimes_def)

text \<open>Whatever the host does, the sorted runs are the runs.\<close>

lemma mset_sortByTime: "mset (sortByTime js xs) = mset xs"
proof (cases "numericTimes xs")
  case True
  then show ?thesis
    by (simp add: sortByTime_def mset_stableSort)
next
  case False
  let ?order = "sort_key (sortRank js (map (\<lambda>run. getp (Obj run) ''timeSeconds'') xs)) [0..<length xs]"
  have "mset (map (\<lambda>i. xs ! i) ?order) = image_mset (\<lambda>i. xs ! i) (mset ?order)"
    by (rule mset_map)
  also have "\<dots> = image_mset (\<lambda>i. xs ! i) (mset [0..<length xs])"
    by (simp only: mset_sort)
  also have "\<dots> = mset (map (\<lambda>i. xs ! i) [0..<length xs])"
    by (rule mset_map[symmetric])
  also have "\<dots> = mset xs"
    by (simp only: map_nth)
  finally show ?thesis
    using False by (simp add: sortByTime_def)
qed

lemma set_sortByTime: "set (sortByTime js xs) = set xs"
  by (metis mset_sortByTime set_mset_mset)

lemma length_sortByTime: "length (sortByTime js xs) = length xs"
  by (metis mset_sortByTime size_mset)

lemma timeLe_numeric:
  "isNum (timeOf a) \<Longrightarrow> isNum (timeOf b) \<Longrightarrow> timeLe js a b = (timeValue a \<le> timeValue b)"
  by (cases "timeOf a"; cases "timeOf b") (simp_all add: timeLe_def timeOf_def timeValue_def)

lemma insertRun_numeric:
  "isNum (timeOf a) \<Longrightarrow> \<forall>b\<in>set bs. isNum (timeOf b) \<Longrightarrow>
   insertRun js a bs = insort_key timeValue a bs"
  by (induction bs) (simp_all add: timeLe_numeric)

lemma stableSort_numeric:
  "\<forall>a\<in>set xs. isNum (timeOf a) \<Longrightarrow> stableSort js xs = sort_key timeValue xs"
proof (induction xs)
  case Nil
  then show ?case by simp
next
  case (Cons a xs)
  then have "stableSort js xs = sort_key timeValue xs" by simp
  moreover have "\<forall>b\<in>set (sort_key timeValue xs). isNum (timeOf b)"
    using Cons.prems by simp
  ultimately show ?case
    using Cons.prems by (simp add: stableSort_Cons insertRun_numeric)
qed

lemma numericTimes_iff: "numericTimes xs \<longleftrightarrow> (\<forall>a\<in>set xs. isNum (timeOf a))"
  by (simp add: numericTimes_def timeOf_def list_all_iff)

text \<open>
  When every time is a number, the sort is the stable sort by time of the
  library.
\<close>

lemma sortByTime_numeric:
  "\<forall>a\<in>set xs. isNum (timeOf a) \<Longrightarrow> sortByTime js xs = sort_key timeValue xs"
  by (simp add: sortByTime_def numericTimes_iff stableSort_numeric)

lemma sorted_sortByTime:
  "\<forall>a\<in>set xs. isNum (timeOf a) \<Longrightarrow> sorted (map timeValue (sortByTime js xs))"
  by (simp add: sortByTime_numeric)

lemma userEntry_nonempty:
  "runs \<noteq> [] \<Longrightarrow> userEntry js popts runs = [withHistory popts (sortByTime js runs)]"
proof -
  assume "runs \<noteq> []"
  then have "sortByTime js runs \<noteq> []"
    using length_sortByTime[of js runs] by auto
  then obtain entry others where e: "sortByTime js runs = entry # others"
    by (cases "sortByTime js runs") auto
  show ?thesis
    by (cases others) (simp_all add: userEntry_def withHistory_def e Let_def)
qed


lemma timeOf_setp [simp]: "k \<noteq> ''timeSeconds'' \<Longrightarrow> timeOf (setp e k v) = timeOf e"
  by (simp add: timeOf_def)

lemma timeValue_setp [simp]: "k \<noteq> ''timeSeconds'' \<Longrightarrow> timeValue (setp e k v) = timeValue e"
  by (simp add: timeValue_def)

lemma rankOf_setp [simp]: "rankOf (setp e ''rank'' v) = v"
  by (simp add: rankOf_def)

lemma ranked_time: "ranked e e' \<Longrightarrow> timeOf e' = timeOf e"
  by (auto simp: ranked_def)

lemma rankFrom_Cons:
  "rankFrom i prev (e # rest) =
     setp e ''rank'' (if strictEquals (timeOf e) (timeOf prev) then rankOf prev
                      else Num (of_nat (i + 1)))
     # rankFrom (i + 1)
         (setp e ''rank'' (if strictEquals (timeOf e) (timeOf prev) then rankOf prev
                           else Num (of_nat (i + 1)))) rest"
  by (simp add: timeOf_def rankOf_def Let_def)

lemma rankFrom_ranked:
  "isNum (rankOf prev) \<Longrightarrow> list_all2 ranked es (rankFrom i prev es)"
proof (induction es arbitrary: i prev)
  case Nil
  then show ?case by simp
next
  case (Cons e rest)
  let ?r = "if strictEquals (timeOf e) (timeOf prev) then rankOf prev else Num (of_nat (i + 1))"
  from Cons.prems have n: "isNum ?r"
    by simp
  then obtain r where r: "?r = Num r"
    by (cases ?r) auto
  have "list_all2 ranked rest (rankFrom (i + 1) (setp e ''rank'' ?r) rest)"
    by (rule Cons.IH) (simp only: rankOf_setp n)
  moreover have "ranked e (setp e ''rank'' ?r)"
    unfolding ranked_def r by blast
  ultimately show ?case
    by (simp only: rankFrom_Cons list_all2_Cons)
qed

lemma assignRanks_Cons:
  "assignRanks (e # rest) = setp e ''rank'' (Num 1) # rankFrom 1 (setp e ''rank'' (Num 1)) rest"
  by (simp add: assignRanks_def Let_def)

lemma assignRanks_ranked: "list_all2 ranked es (assignRanks es)"
proof (cases es)
  case Nil
  then show ?thesis by (simp add: assignRanks_def)
next
  case (Cons e rest)
  have "list_all2 ranked rest (rankFrom 1 (setp e ''rank'' (Num 1)) rest)"
    by (rule rankFrom_ranked) simp
  moreover have "ranked e (setp e ''rank'' (Num 1))"
    unfolding ranked_def by blast
  ultimately show ?thesis
    using Cons by (simp add: assignRanks_Cons)
qed

lemma rankFrom_nth:
  "j < length es \<Longrightarrow>
   rankOf (rankFrom i prev es ! j) =
     (if strictEquals (timeOf (es ! j)) (timeOf (if j = 0 then prev else rankFrom i prev es ! (j - 1)))
      then rankOf (if j = 0 then prev else rankFrom i prev es ! (j - 1))
      else Num (of_nat (i + j + 1)))"
proof (induction es arbitrary: i prev j)
  case Nil
  then show ?case by simp
next
  case (Cons e rest)
  let ?r = "if strictEquals (timeOf e) (timeOf prev) then rankOf prev else Num (of_nat (i + 1))"
  note unf = rankFrom_Cons[of i prev e rest]
  show ?case
  proof (cases j)
    case 0
    then show ?thesis
      unfolding unf by simp
  next
    case (Suc j')
    with Cons.prems have "j' < length rest" by simp
    from Cons.IH[OF this, of "i + 1" "setp e ''rank'' ?r"] Suc show ?thesis
      unfolding unf by (cases j') simp_all
  qed
qed


lemma strictEquals_Num: "isNum u \<Longrightarrow> isNum v \<Longrightarrow> strictEquals u v = (numOf u = numOf v)"
  by (cases u; cases v) simp_all

lemma fasterThan_append: "fasterThan e (xs @ ys) = fasterThan e xs + fasterThan e ys"
  by (simp add: fasterThan_def)

lemma fasterThan_none: "\<forall>x\<in>set xs. timeValue e \<le> timeValue x \<Longrightarrow> fasterThan e xs = 0"
  by (auto simp: fasterThan_def filter_empty_conv)

lemma fasterThan_all: "\<forall>x\<in>set xs. timeValue x < timeValue e \<Longrightarrow> fasterThan e xs = length xs"
  by (simp add: fasterThan_def)

lemma fasterThan_cong: "timeValue e = timeValue e' \<Longrightarrow> fasterThan e xs = fasterThan e' xs"
  by (simp add: fasterThan_def)

lemma rankFrom_competition:
  assumes "sorted (map timeValue (pre @ es))" and "pre \<noteq> []"
    and "\<forall>e\<in>set es. isNum (timeOf e)" and "isNum (timeOf prev)"
    and "timeValue prev = timeValue (last pre)"
    and "rankOf prev = Num (of_nat (1 + fasterThan (last pre) pre))"
    and "i = length pre" and "j < length es"
  shows "rankOf (rankFrom i prev es ! j) = Num (of_nat (1 + fasterThan (es ! j) (pre @ es)))"
  using assms
proof (induction es arbitrary: pre prev i j)
  case Nil
  then show ?case by simp
next
  case (Cons e rest)
  let ?r = "if strictEquals (timeOf e) (timeOf prev) then rankOf prev else Num (of_nat (i + 1))"
  let ?ranked = "setp e ''rank'' ?r"
  note unf = rankFrom_Cons[of i prev e rest]
  from Cons.prems(1) have s: "sorted (map timeValue pre)"
    "\<forall>x\<in>set pre. timeValue x \<le> timeValue e"
    "\<forall>x\<in>set rest. timeValue e \<le> timeValue x"
    by (auto simp: sorted_append)
  have lastmax: "\<forall>x\<in>set pre. timeValue x \<le> timeValue (last pre)"
  proof
    fix x assume "x \<in> set pre"
    then obtain k where k: "k < length pre" "pre ! k = x"
      by (auto simp: in_set_conv_nth)
    with s(1) Cons.prems(2) have "map timeValue pre ! k \<le> map timeValue pre ! (length pre - 1)"
      by (intro sorted_nth_mono) auto
    with k Cons.prems(2) show "timeValue x \<le> timeValue (last pre)"
      by (simp add: last_conv_nth)
  qed
  have eq: "strictEquals (timeOf e) (timeOf prev) = (timeValue e = timeValue (last pre))"
    using Cons.prems(3,4,5) by (simp add: strictEquals_Num timeValue_def)
  have A: "?r = Num (of_nat (1 + fasterThan e (pre @ [e])))"
  proof (cases "timeValue e = timeValue (last pre)")
    case True
    then have "fasterThan e (pre @ [e]) = fasterThan (last pre) pre"
      by (simp add: fasterThan_append fasterThan_def)
    with True eq Cons.prems(6) show ?thesis by simp
  next
    case False
    with s(2) Cons.prems(2) have "timeValue (last pre) < timeValue e"
      by (metis last_in_set order_le_imp_less_or_eq)
    with lastmax have "\<forall>x\<in>set pre. timeValue x < timeValue e"
      by force
    then have "fasterThan e (pre @ [e]) = length pre"
      by (simp add: fasterThan_append fasterThan_all) (simp add: fasterThan_def)
    with False eq Cons.prems(7) show ?thesis by simp
  qed
  show ?case
  proof (cases j)
    case 0
    have "fasterThan e (pre @ e # rest) = fasterThan e (pre @ [e])"
      using fasterThan_none[OF s(3)] fasterThan_append[of e "pre @ [e]" rest] by simp
    with 0 A show ?thesis
      unfolding unf by simp
  next
    case (Suc j')
    have "rankOf (rankFrom (i + 1) ?ranked rest ! j')
        = Num (of_nat (1 + fasterThan (rest ! j') ((pre @ [e]) @ rest)))"
    proof (rule Cons.IH)
      show "sorted (map timeValue ((pre @ [e]) @ rest))" using Cons.prems(1) by simp
      show "pre @ [e] \<noteq> []" by simp
      show "\<forall>e\<in>set rest. isNum (timeOf e)" using Cons.prems(3) by simp
      show "isNum (timeOf ?ranked)" using Cons.prems(3) by simp
      show "timeValue ?ranked = timeValue (last (pre @ [e]))" by simp
      show "rankOf ?ranked = Num (of_nat (1 + fasterThan (last (pre @ [e])) (pre @ [e])))"
        using A by simp
      show "i + 1 = length (pre @ [e])" using Cons.prems(7) by simp
      show "j' < length rest" using Cons.prems(8) Suc by simp
    qed
    with Suc show ?thesis
      unfolding unf by simp
  qed
qed

lemma assignRanks_competition:
  assumes "sorted (map timeValue es)" and "\<forall>e\<in>set es. isNum (timeOf e)" and "j < length es"
  shows "rankOf (assignRanks es ! j) = Num (of_nat (1 + fasterThan (es ! j) es))"
proof (cases es)
  case Nil
  with assms show ?thesis by simp
next
  case (Cons e rest)
  from assms(1) Cons have s: "\<forall>x\<in>set rest. timeValue e \<le> timeValue x"
    by simp
  have z: "fasterThan e (e # rest) = 0"
    using s by (intro fasterThan_none) simp
  show ?thesis
  proof (cases j)
    case 0
    with Cons z show ?thesis by (simp add: assignRanks_Cons)
  next
    case (Suc j')
    have "rankOf (rankFrom 1 (setp e ''rank'' (Num 1)) rest ! j')
        = Num (of_nat (1 + fasterThan (rest ! j') ([e] @ rest)))"
    proof (rule rankFrom_competition)
      show "sorted (map timeValue ([e] @ rest))" using assms(1) Cons by simp
      show "\<forall>e\<in>set rest. isNum (timeOf e)" using assms(2) Cons by simp
      show "isNum (timeOf (setp e ''rank'' (Num 1)))" using assms(2) Cons by simp
      show "rankOf (setp e ''rank'' (Num 1)) = Num (of_nat (1 + fasterThan (last [e]) [e]))"
        by (simp add: fasterThan_def)
      show "j' < length rest" using assms(3) Cons Suc by simp
    qed simp_all
    with Cons Suc show ?thesis by (simp add: assignRanks_Cons)
  qed
qed


lemma hasTimeAndPlayer_setp [simp]:
  "k \<noteq> ''timeSeconds'' \<Longrightarrow> k \<noteq> ''player'' \<Longrightarrow>
   hasTimeAndPlayer (setp e k v) = hasTimeAndPlayer e"
  by (simp add: hasTimeAndPlayer_def)

lemma playerKey_setp [simp]:
  "k \<noteq> ''player'' \<Longrightarrow> playerKey js (setp e k v) = playerKey js e"
  by (simp add: playerKey_def)

lemma ranked_fields:
  assumes "ranked e e'"
  shows "hasTimeAndPlayer e' = hasTimeAndPlayer e" "playerKey js e' = playerKey js e"
    "timeOf e' = timeOf e" "timeValue e' = timeValue e"
  using assms by (auto simp: ranked_def)

lemma withHistory_fields:
  "hasTimeAndPlayer (withHistory popts userRuns) = hasTimeAndPlayer (hd userRuns)"
  "playerKey js (withHistory popts userRuns) = playerKey js (hd userRuns)"
  "timeOf (withHistory popts userRuns) = timeOf (hd userRuns)"
  "timeValue (withHistory popts userRuns) = timeValue (hd userRuns)"
  by (simp_all add: withHistory_def)

lemma set_runsOf: "set (runsOf js k runs) = {r \<in> set runs. hasTimeAndPlayer r \<and> playerKey js r = k}"
  by (auto simp: runsOf_def)

lemma lbEntriesOf_map:
  assumes "\<forall>kv\<in>set m. snd kv \<noteq> []"
  shows "lbEntriesOf js popts m = map (\<lambda>kv. withHistory popts (sortByTime js (snd kv))) (forIn m)"
proof -
  have "set (forIn m) = set m"
    by (metis mset_forIn set_mset_mset)
  with assms have "\<forall>kv\<in>set (forIn m). snd kv \<noteq> []"
    by simp
  then have "concat (map (\<lambda>(userId, runs). userEntry js popts runs) xs)
      = map (\<lambda>kv. withHistory popts (sortByTime js (snd kv))) xs"
    if "set xs \<subseteq> set (forIn m)" for xs
    using that by (induction xs) (auto simp: userEntry_nonempty split: prod.splits)
  then show ?thesis
    by (simp add: lbEntriesOf_def)
qed

lemma rankRuns_structure:
  assumes "rankRuns js popts runs = Inr out"
  obtains m where "partitionRuns js runs [] = Inr m"
    and "out = assignRanks (sortByTime js (unrankedEntries js popts runs m))"
    and "distinct (map fst m)"
    and "\<forall>kv\<in>set m. snd kv = runsOf js (fst kv) runs \<and> runsOf js (fst kv) runs \<noteq> []"
    and "\<forall>k. runsOf js k runs \<noteq> [] \<longrightarrow> (k, runsOf js k runs) \<in> set m"
proof -
  from assms obtain m where m: "partitionRuns js runs [] = Inr m"
    and out: "out = assignRanks (sortByTime js (lbEntriesOf js popts m))"
    by (auto simp: rankRuns_def bindE_Inr_iff)
  note p = partitionRuns_empty[OF m]
  have kv: "\<forall>kv\<in>set m. snd kv = runsOf js (fst kv) runs \<and> runsOf js (fst kv) runs \<noteq> []"
  proof
    fix kv assume "kv \<in> set m"
    then have "map_of m (fst kv) = Some (snd kv)"
      using p(1) by (simp add: map_of_eq_Some_iff)
    with p(2)[of "fst kv"] show "snd kv = runsOf js (fst kv) runs \<and> runsOf js (fst kv) runs \<noteq> []"
      by (auto split: if_splits)
  qed
  have all: "\<forall>k. runsOf js k runs \<noteq> [] \<longrightarrow> (k, runsOf js k runs) \<in> set m"
  proof (intro allI impI)
    fix k assume "runsOf js k runs \<noteq> []"
    with p(2)[of k] have "map_of m k = Some (runsOf js k runs)"
      by simp
    then show "(k, runsOf js k runs) \<in> set m"
      by (rule map_of_SomeD)
  qed
  have "set (forIn m) = set m"
    by (metis mset_forIn set_mset_mset)
  with kv have "lbEntriesOf js popts m = unrankedEntries js popts runs m"
    by (simp add: lbEntriesOf_map unrankedEntries_def)
  with out m p(1) kv all that show ?thesis
    by simp
qed


lemma set_forIn: "set (forIn m) = set m"
  by (metis mset_forIn set_mset_mset)

lemma list_all2_in_set2:
  "list_all2 R xs ys \<Longrightarrow> y \<in> set ys \<Longrightarrow> \<exists>x\<in>set xs. R x y"
  by (induction rule: list_all2_induct) auto







text \<open>The Ranker returns unless a player is named like a member of \<^verbatim>\<open>Object.prototype\<close>.\<close>

lemma partitionRuns_returns:
  "\<forall>run\<in>set runs. hasTimeAndPlayer run \<longrightarrow> \<not> inheritedName (playerKey js run) \<Longrightarrow>
   \<exists>m. partitionRuns js runs acc = Inr m"
  by (induction runs arbitrary: acc) (auto split: option.splits)

lemma rankRuns_returns:
  assumes "\<forall>run\<in>set runs. hasTimeAndPlayer run \<longrightarrow> \<not> inheritedName (playerKey js run)"
  shows "\<exists>lbEntries. rankRuns js popts runs = Inr lbEntries"
  using partitionRuns_returns[OF assms, of "[]"] by (auto simp: rankRuns_def bindE_def)


text \<open>The Ranker on the sample runs.\<close>

lemma rankRuns_tiedRuns:
  "rankRuns plainEcma defaultOptions tiedRuns =
     Inr [setp (keptRun ''a'' ''alice'' 10 ''00:00:10'') ''rank'' (Num 1),
          setp (keptRun ''b'' ''bob'' 10 ''00:00:10'') ''rank'' (Num 1),
          setp (keptRun ''c'' ''carol'' 20 ''00:00:20'') ''rank'' (Num 3)]"
  by code_simp



lemma rankRuns_closeRuns:
  "rankRuns plainEcma defaultOptions closeRuns =
     Inr [setp (keptRun ''r2'' ''bob'' (51 / 5) ''00:00:10'') ''rank'' (Num 1),
          setp (keptRun ''r3'' ''carol'' (51 / 5) ''00:00:10'') ''rank'' (Num 1),
          setp (keptRun ''r1'' ''alice'' (107 / 10) ''00:00:10'') ''rank'' (Num 3)]"
  by code_simp

lemma rankRuns_mixedRuns:
  "rankRuns plainEcma historyOptions mixedRuns =
     Inr [setp (setp (keptRun ''b'' ''alice'' 10 ''00:00:10'') ''obsoleteRuns''
                 (Arr [Obj (keptRun ''a'' ''alice'' 15 ''00:00:15'')]))
            ''rank'' (Num 1)]"
  by code_simp

lemma assignRanks_nth:
  assumes "i < length es"
  shows "rankOf (assignRanks es ! i) =
     (if i = 0 then Num 1
      else if strictEquals (timeOf (assignRanks es ! i)) (timeOf (assignRanks es ! (i - 1)))
      then rankOf (assignRanks es ! (i - 1))
      else Num (of_nat (i + 1)))"
proof (cases es)
  case Nil
  with assms show ?thesis by simp
next
  case (Cons e rest)
  let ?first = "setp e ''rank'' (Num 1)"
  have t: "timeOf (assignRanks es ! i) = timeOf (es ! i)"
    using assignRanks_ranked[of es] assms
    by (simp add: list_all2_conv_all_nth ranked_fields(3))
  show ?thesis
  proof (cases i)
    case 0
    with Cons show ?thesis by (simp add: assignRanks_Cons)
  next
    case (Suc j)
    with assms Cons have j: "j < length rest" by simp
    have prev: "(if j = 0 then ?first else rankFrom 1 ?first rest ! (j - 1)) = assignRanks es ! (i - 1)"
      using Cons Suc by (cases j) (simp_all add: assignRanks_Cons)
    from rankFrom_nth[OF j, of 1 ?first] show ?thesis
      unfolding prev t using Cons Suc by (simp add: assignRanks_Cons)
  qed
qed


lemma fasterThan_map:
  assumes "timeValue e = timeValue e'" and "map timeValue xs = map timeValue ys"
  shows "fasterThan e xs = fasterThan e' ys"
proof -
  have f: "fasterThan e zs = length (filter (\<lambda>t. t < timeValue e) (map timeValue zs))" for e zs
    unfolding fasterThan_def filter_map comp_def by simp
  show ?thesis
    unfolding f assms by (rule refl)
qed

lemma ranked_map_timeValue:
  "list_all2 ranked xs ys \<Longrightarrow> map timeValue ys = map timeValue xs"
  by (induction rule: list_all2_induct) (simp_all add: ranked_fields(4))


text \<open>
  When the times are numbers, the ranks are in the order of the times: a
  strictly faster entry has a strictly smaller rank, and entries have the same
  rank exactly when they have the same time.
\<close>

lemma length_filter_mono:
  "(\<And>x. x \<in> set xs \<Longrightarrow> P x \<Longrightarrow> Q x) \<Longrightarrow> length (filter P xs) \<le> length (filter Q xs)"
  by (induction xs) auto

lemma length_filter_strict:
  assumes "\<And>x. x \<in> set xs \<Longrightarrow> P x \<Longrightarrow> Q x" and "\<exists>x\<in>set xs. Q x \<and> \<not> P x"
  shows "length (filter P xs) < length (filter Q xs)"
  using assms
proof (induction xs)
  case Nil
  then show ?case by simp
next
  case (Cons a xs)
  have m: "length (filter P xs) \<le> length (filter Q xs)"
    using Cons.prems(1) by (intro length_filter_mono) simp_all
  show ?case
  proof (cases "Q a \<and> \<not> P a")
    case True
    with m show ?thesis by simp
  next
    case False
    with Cons.prems(2) have "\<exists>x\<in>set xs. Q x \<and> \<not> P x" by auto
    with Cons.IH Cons.prems(1) have "length (filter P xs) < length (filter Q xs)" by simp
    with False Cons.prems(1)[of a] show ?thesis by auto
  qed
qed

lemma fasterThan_mono:
  "timeValue a \<le> timeValue b \<Longrightarrow> fasterThan a es \<le> fasterThan b es"
  unfolding fasterThan_def by (rule length_filter_mono) simp

lemma fasterThan_strict:
  "a \<in> set es \<Longrightarrow> timeValue a < timeValue b \<Longrightarrow> fasterThan a es < fasterThan b es"
  unfolding fasterThan_def by (rule length_filter_strict) auto

lemma ranks_follow_times:
  assumes "\<forall>i<length es. rankOf (es ! i) = Num (of_nat (1 + fasterThan (es ! i) es))"
    and "i < length es" and "j < length es"
  shows "numOf (rankOf (es ! i)) < numOf (rankOf (es ! j))
           \<longleftrightarrow> timeValue (es ! i) < timeValue (es ! j)"
    and "rankOf (es ! i) = rankOf (es ! j) \<longleftrightarrow> timeValue (es ! i) = timeValue (es ! j)"
proof -
  have r: "rankOf (es ! i) = Num (of_nat (1 + fasterThan (es ! i) es))"
    "rankOf (es ! j) = Num (of_nat (1 + fasterThan (es ! j) es))"
    using assms by simp_all
  have m: "es ! i \<in> set es" "es ! j \<in> set es"
    using assms(2,3) by simp_all
  have l: "fasterThan (es ! i) es < fasterThan (es ! j) es
      \<longleftrightarrow> timeValue (es ! i) < timeValue (es ! j)"
    using fasterThan_strict[OF m(1), of "es ! j"] fasterThan_mono[of "es ! j" "es ! i" es]
    by (cases "timeValue (es ! i) < timeValue (es ! j)") simp_all
  have e: "fasterThan (es ! i) es = fasterThan (es ! j) es
      \<longleftrightarrow> timeValue (es ! i) = timeValue (es ! j)"
    using fasterThan_strict[OF m(1), of "es ! j"] fasterThan_strict[OF m(2), of "es ! i"]
      fasterThan_cong[of "es ! i" "es ! j" es]
    by (cases "timeValue (es ! i)" "timeValue (es ! j)" rule: linorder_cases) simp_all
  show "numOf (rankOf (es ! i)) < numOf (rankOf (es ! j))
           \<longleftrightarrow> timeValue (es ! i) < timeValue (es ! j)"
    unfolding r using l by simp
  show "rankOf (es ! i) = rankOf (es ! j) \<longleftrightarrow> timeValue (es ! i) = timeValue (es ! j)"
    unfolding r using e by simp
qed

lemma rankRuns_numeric:
  assumes "rankRuns js popts runs = Inr lbEntries"
    and num: "\<forall>run\<in>set runs. hasTimeAndPlayer run \<longrightarrow> isNum (timeOf run)"
  shows "\<forall>i<length lbEntries.
           rankOf (lbEntries ! i) = Num (of_nat (1 + fasterThan (lbEntries ! i) lbEntries))"
    and "\<forall>e\<in>set lbEntries. isNum (timeOf e)"
proof -
  from rankRuns_structure[OF assms(1)] obtain m where
    out: "lbEntries = assignRanks (sortByTime js (unrankedEntries js popts runs m))"
    and kv: "\<forall>kv\<in>set m. snd kv = runsOf js (fst kv) runs \<and> runsOf js (fst kv) runs \<noteq> []"
    by blast
  let ?E = "unrankedEntries js popts runs m"
  let ?S = "sortByTime js ?E"
  have len: "length lbEntries = length ?S"
    unfolding out using assignRanks_ranked[of ?S] by (simp add: list_all2_lengthD)
  have tv: "map timeValue lbEntries = map timeValue ?S"
    unfolding out by (rule ranked_map_timeValue[OF assignRanks_ranked])
  have E: "\<forall>e\<in>set ?E. isNum (timeOf e)"
  proof
    fix e assume "e \<in> set ?E"
    then obtain k where k: "k \<in> set m"
      "e = withHistory popts (sortByTime js (runsOf js (fst k) runs))"
      by (auto simp: unrankedEntries_def set_forIn)
    from kv k(1) have "runsOf js (fst k) runs \<noteq> []" by blast
    then have "sortByTime js (runsOf js (fst k) runs) \<noteq> []"
      using length_sortByTime[of js "runsOf js (fst k) runs"] by auto
    then have "hd (sortByTime js (runsOf js (fst k) runs)) \<in> set (runsOf js (fst k) runs)"
      using set_sortByTime[of js "runsOf js (fst k) runs"] hd_in_set by blast
    with num show "isNum (timeOf e)"
      unfolding k(2) by (auto simp: withHistory_fields set_runsOf)
  qed
  then have srt: "sorted (map timeValue ?S)"
    by (rule sorted_sortByTime)
  from E have S: "\<forall>e\<in>set ?S. isNum (timeOf e)"
    by (simp add: set_sortByTime)
  show "\<forall>i<length lbEntries.
          rankOf (lbEntries ! i) = Num (of_nat (1 + fasterThan (lbEntries ! i) lbEntries))"
  proof (intro allI impI)
    fix i assume i: "i < length lbEntries"
    with len have i': "i < length ?S" by simp
    have "timeValue (lbEntries ! i) = timeValue (?S ! i)"
      using tv i i' by (metis nth_map)
    then have "fasterThan (?S ! i) ?S = fasterThan (lbEntries ! i) lbEntries"
      using tv by (intro fasterThan_map) simp_all
    with assignRanks_competition[OF srt S i'] show
      "rankOf (lbEntries ! i) = Num (of_nat (1 + fasterThan (lbEntries ! i) lbEntries))"
      unfolding out by simp
  qed
  show "\<forall>e\<in>set lbEntries. isNum (timeOf e)"
  proof
    fix e' assume "e' \<in> set lbEntries"
    with list_all2_in_set2[OF assignRanks_ranked[of ?S]] obtain e where
      "e \<in> set ?S" "ranked e e'"
      unfolding out by blast
    with S show "isNum (timeOf e')"
      by (simp add: ranked_time)
  qed
qed

section \<open>Properties of the Builder\<close>

lemma walkVariables_uncategorized:
  assumes "\<not> nullish (getp (Obj runObj) ''variables'')"
    and "\<exists>catVariable\<in>set variables. \<not> categorized js runObj catVariable"
  shows "\<exists>usedVars' orderedVars'.
           walkVariables js runObj variables usedVars orderedVars = Inr (True, usedVars', orderedVars')"
  using assms(2)
proof (induction variables arbitrary: usedVars orderedVars)
  case Nil
  then show ?case by simp
next
  case (Cons catVariable rest)
  show ?case
  proof (cases "categorized js runObj catVariable")
    case True
    with Cons.prems have "\<exists>v\<in>set rest. \<not> categorized js runObj v" by simp
    from Cons.IH[OF this] True assms(1) show ?thesis
      by (simp add: categorized_def runValue_def readMember_def bindE_def del: getp.simps)
  next
    case False
    with assms(1) show ?thesis
      by (auto simp: categorized_def runValue_def readMember_def bindE_def simp del: getp.simps)
  qed
qed

lemma walkVariables_categorized:
  assumes "\<not> nullish (getp (Obj runObj) ''variables'')"
    and "\<forall>catVariable\<in>set variables. categorized js runObj catVariable"
  shows "walkVariables js runObj variables usedVars orderedVars =
           Inr (False,
                foldl (\<lambda>u v. setp u (ToString js (var_id v)) (runValue js runObj v)) usedVars variables,
                orderedVars @ map (\<lambda>v. (var_id v, runValue js runObj v)) variables)"
  using assms(2)
proof (induction variables arbitrary: usedVars orderedVars)
  case Nil
  then show ?case by simp
next
  case (Cons catVariable rest)
  then have c: "categorized js runObj catVariable"
    and r: "\<forall>v\<in>set rest. categorized js runObj v"
    by simp_all
  from c assms(1) show ?case
    by (simp add: Cons.IH[OF r] categorized_def runValue_def readMember_def bindE_def del: getp.simps)
qed

lemma map_of_placeRun:
  "map_of (placeRun lbId catId usedVars lbName runObj leaderboards) k =
     (if k = lbId
      then Some (case map_of leaderboards lbId of
                   Some lbObj \<Rightarrow> lbObj\<lparr>lb_runs := lb_runs lbObj @ [runObj]\<rparr>
                 | None \<Rightarrow> \<lparr>lb_id = lbId, lb_categoryId = catId, lb_variables = usedVars,
                            lb_name = Str lbName, lb_runs = [runObj]\<rparr>)
      else map_of leaderboards k)"
  by (cases "map_of leaderboards lbId")
    (simp_all add: placeRun_def Let_def map_of_map_entry update_conv')


lemma leaderboardName_categorized:
  assumes "\<forall>v\<in>set variables. categorized js runObj v"
    and "orderedVars = map (\<lambda>v. (var_id v, runValue js runObj v)) variables"
  shows "leaderboardName js variables orderedVars i lbId lbName =
           Inr (lbId @ concat (map (idPart js runObj) (drop i variables)),
                lbName @ nameParts js runObj i (drop i variables))"
proof (induction "length variables - i" arbitrary: i lbId lbName)
  case 0
  then show ?case
    using assms(2) by (subst leaderboardName.simps) simp
next
  case (Suc n)
  then have i: "i < length variables" and n: "n = length variables - (i + 1)"
    by simp_all
  let ?v = "variables ! i"
  from i assms(1) have "categorized js runObj ?v"
    by simp
  then have t: "\<not> nullish (getMember js (Obj (var_values ?v)) (ToString js (runValue js runObj ?v)))"
    by (auto simp: categorized_def nullish_def)
  have d: "drop i variables = ?v # drop (i + 1) variables"
    using i by (simp add: Cons_nth_drop_Suc)
  have o: "orderedVars ! i = (var_id ?v, runValue js runObj ?v)" "i < length orderedVars"
    using i assms(2) by simp_all
  show ?case
    apply (subst leaderboardName.simps)
    apply (simp only: o i if_True fst_conv snd_conv readProp_def t if_False bindE_def sum.case
        Suc.hyps(1)[OF n] d)
    apply (simp add: idPart_def labelOf_def)
    done
qed

lemma distinct_prefix_before:
  assumes "c \<notin> set xs" and "c \<notin> set ys" and "xs @ c # r1 = ys @ c # r2"
  shows "xs = ys"
proof -
  have "takeWhile (\<lambda>x. x \<noteq> c) (zs @ c # r) = zs" if "c \<notin> set zs" for zs r
    using that by (induction zs) auto
  from this[OF assms(1), of r1] this[OF assms(2), of r2] assms(3) show ?thesis
    by simp
qed


lemma breakoutRun_categorized:
  assumes "\<not> nullish (getp (Obj runObj) ''variables'')"
    and "\<forall>v\<in>set (cat_variables catObj). categorized js runObj v"
  shows "breakoutRun js catId catObj runObj leaderboards =
     Inr (placeRun (catId @ concat (map (idPart js runObj) (cat_variables catObj))) catId
            (foldl (\<lambda>u v. setp u (ToString js (var_id v)) (runValue js runObj v)) []
               (cat_variables catObj))
            (ToString js (cat_name catObj) @ nameParts js runObj 0 (cat_variables catObj))
            runObj leaderboards)"
  unfolding breakoutRun_def walkVariables_categorized[OF assms]
  by (simp add: bindE_def leaderboardOf_def leaderboardName_categorized[OF assms(2)])

lemma breakoutRun_returns:
  assumes "\<not> nullish (getp (Obj runObj) ''variables'')"
  shows "\<exists>leaderboards'. breakoutRun js catId catObj runObj leaderboards = Inr leaderboards'"
proof (cases "\<forall>v\<in>set (cat_variables catObj). categorized js runObj v")
  case True
  from breakoutRun_categorized[OF assms this] show ?thesis by blast
next
  case False
  then have "\<exists>v\<in>set (cat_variables catObj). \<not> categorized js runObj v" by blast
  from walkVariables_uncategorized[OF assms this, of "[]" "[]"] show ?thesis
    by (auto simp: breakoutRun_def bindE_def leaderboardOf_def)
qed


lemma processRun_variables:
  assumes "processRun js popts request raw = Inr (Some run)"
  shows "\<not> nullish (getp (Obj run) ''variables'')"
proof -
  let ?ob1 = "setTimes js raw (newRunObj raw (rawStatus raw))"
  from processRun_stages[OF assms] obtain ob2 ob3 ob4 where
    st: "setVerifier js request raw ?ob1 = Inr ob2" "setVideos raw ob2 = Inr ob3"
       "setPlatform js request raw ob3 = Inr ob4" "setPlayer js request raw ob4 = Inr run"
    by blast
  have "getp (Obj run) ''variables'' = getp (Obj ?ob1) ''variables''"
    using setVerifier_getp[OF st(1), of "''variables''"] setVideos_getp[OF st(2), of "''variables''"]
      setPlatform_getp[OF st(3), of "''variables''"] setPlayer_getp[OF st(4), of "''variables''"]
    by simp
  also have "\<dots> = (if truthy (getp raw ''values'') then getp raw ''values'' else Obj [])"
    by (simp add: setTimes_def newRunObj_def Let_def)
  finally show ?thesis
    by (auto simp: nullish_def simp del: getp.simps)
qed

section \<open>The Normalizer on malformed input\<close>

text \<open>
  C5.  The Normalizer is to return \<^verbatim>\<open>null\<close> for a malformed raw run, in
  particular when the nested status field is missing.  The guard of line 112
  tests the raw run twice and never its \<^verbatim>\<open>status\<close>: for a raw run without
  \<^verbatim>\<open>status\<close>, line 117 reads \<^verbatim>\<open>status\<close> of \<^verbatim>\<open>undefined\<close> and throws.
\<close>

theorem processRun_without_status_throws:
  "processRun js popts request
     (Obj [(''id'', Str ''r1''), (''times'', Obj [(''primary_t'', Num 10)])]) = Inl TypeError"
  by (simp add: processRun_def readProp_def nullish_def bindE_def)

theorem processRun_without_status_throws_witness:
  "processRun plainEcma defaultOptions offline
     (Obj [(''id'', Str ''r1''), (''times'', Obj [(''primary_t'', Num 10)])]) = Inl TypeError"
  by (rule processRun_without_status_throws)

section \<open>The time of a kept run\<close>

text \<open>
  C2, as the code has it.  A kept run has a truthy primary time, stored
  unchanged as \<^verbatim>\<open>timeSeconds\<close>; as a number it is not zero.  A raw run whose
  \<^verbatim>\<open>times\<close> or primary time is missing or falsy (the number zero) is rejected
  with \<^verbatim>\<open>null\<close>, unless it has no \<^verbatim>\<open>status\<close> object, when line 117 throws
  first.  Neither the sign nor the floor of the time is tested.
\<close>

theorem processRun_keeps_truthy_time:
  "(processRun js popts request raw = Inr (Some run) \<longrightarrow>
      truthy (primaryTime raw) \<and> getp (Obj run) ''timeSeconds'' = primaryTime raw
      \<and> primaryTime raw \<noteq> Num 0)
   \<and> (\<not> (truthy (getp raw ''times'') \<and> truthy (primaryTime raw)) \<longrightarrow>
        processRun js popts request raw =
          (if truthy raw \<and> nullish (getp raw ''status'') then Inl TypeError else Inr None))"
proof (intro conjI impI)
  assume r: "processRun js popts request raw = Inr (Some run)"
  show "truthy (primaryTime raw)" by (rule processRun_retained(6)[OF r])
  then show "primaryTime raw \<noteq> Num 0" by auto
  show "getp (Obj run) ''timeSeconds'' = primaryTime raw" by (rule processRun_retained(8)[OF r])
next
  assume "\<not> (truthy (getp raw ''times'') \<and> truthy (primaryTime raw))"
  then show "processRun js popts request raw =
          (if truthy raw \<and> nullish (getp raw ''status'') then Inl TypeError else Inr None)"
    by (rule processRun_rejects_without_time)
qed

text \<open>
  A run of half a second, whose time floors to zero, and a run of minus five
  seconds are both kept.
\<close>

theorem processRun_keeps_nonpositive_counterexample:
  "\<lfloor>1 / 2 :: rat\<rfloor> \<le> 0
   \<and> processRun plainEcma defaultOptions offline (guestRun ''r1'' ''alice'' (1 / 2))
       = Inr (Some (keptRun ''r1'' ''alice'' (1 / 2) ''00:00:00''))
   \<and> processRun plainEcma defaultOptions offline (guestRun ''r2'' ''bob'' (- 5))
       = Inr (Some (keptRun ''r2'' ''bob'' (- 5) ''00:00:-5''))"
  using processRun_guestRun[of "1/2" plainEcma offline "''r1''" "''alice''"]
    processRun_guestRun[of "-5" plainEcma offline "''r2''" "''bob''"]
  by (simp add: formatTime_examples floor_half)

theorem processRun_keeps_truthy_time_witness:
  "processRun plainEcma defaultOptions offline (guestRun ''r1'' ''alice'' (1 / 2))
       = Inr (Some (keptRun ''r1'' ''alice'' (1 / 2) ''00:00:00''))
   \<and> truthy (primaryTime (guestRun ''r1'' ''alice'' (1 / 2)))
   \<and> getp (Obj (keptRun ''r1'' ''alice'' (1 / 2) ''00:00:00'')) ''timeSeconds'' = Num (1 / 2)
   \<and> \<not> (truthy (getp (guestRun ''r3'' ''carol'' 0) ''times'')
          \<and> truthy (primaryTime (guestRun ''r3'' ''carol'' 0)))
   \<and> processRun plainEcma defaultOptions offline (guestRun ''r3'' ''carol'' 0) = Inr None"
proof -
  have k: "processRun plainEcma defaultOptions offline (guestRun ''r1'' ''alice'' (1 / 2))
       = Inr (Some (keptRun ''r1'' ''alice'' (1 / 2) ''00:00:00''))"
    using processRun_guestRun[of "1/2" plainEcma offline "''r1''" "''alice''"]
    by (simp add: formatTime_examples floor_half)
  have z: "\<not> (truthy (getp (guestRun ''r3'' ''carol'' 0) ''times'')
          \<and> truthy (primaryTime (guestRun ''r3'' ''carol'' 0)))"
    by (simp add: guestRun_def primaryTime_def)
  have p: "primaryTime (guestRun ''r1'' ''alice'' (1 / 2)) = Num (1 / 2)"
    by (simp add: guestRun_def primaryTime_def)
  have n: "\<not> nullish (getp (guestRun ''r3'' ''carol'' 0) ''status'')"
    by (simp add: guestRun_def nullish_def)
  from processRun_keeps_truthy_time[where js = plainEcma and popts = defaultOptions
      and request = offline and raw = "guestRun ''r1'' ''alice'' (1 / 2)"
      and run = "keptRun ''r1'' ''alice'' (1 / 2) ''00:00:00''"]
    processRun_keeps_truthy_time[where js = plainEcma and popts = defaultOptions
      and request = offline and raw = "guestRun ''r3'' ''carol'' 0"]
    k z p n
  show ?thesis by simp
qed

section \<open>The Normalizer applied to its own result\<close>

text \<open>
  C4, as the code has it.  The Normalizer is not idempotent: a run it has kept
  stores its status as a string, so that \<^verbatim>\<open>status.status\<close> of the run is
  \<^verbatim>\<open>undefined\<close>, and the Normalizer, whatever its options, rejects the run with
  \<^verbatim>\<open>null\<close>.  The status is a string whenever unverified runs are excluded, and
  whenever the API gave one.
\<close>

theorem processRun_rejects_normalized_run:
  assumes "processRun js popts request raw = Inr (Some run)"
    and "\<not> includeUnverifiedRuns popts \<or> (\<exists>s. rawStatus raw = Str s)"
  shows "processRun js' popts' request' (Obj run) = Inr None"
proof -
  from processRun_retained(4,7)[OF assms(1)] assms(2)
  obtain s where s: "getp (Obj run) ''status'' = Str s"
    by auto
  have u: "getp (Str s) ''status'' = Undefined"
    by (simp add: arrayIndex_status)
  have st: "getp (Obj (newRunObj r v)) ''status'' = v" for r v
    by (simp add: newRunObj_def)
  show ?thesis
    unfolding processRun_def readProp_def
    by (simp add: s u st nullish_def bindE_def Let_def del: getp.simps)
qed

theorem processRun_rejects_normalized_run_counterexample:
  "processRun plainEcma defaultOptions offline (guestRun ''r1'' ''alice'' 10)
     = Inr (Some (keptRun ''r1'' ''alice'' 10 ''00:00:10''))
   \<and> processRun plainEcma defaultOptions offline (Obj (keptRun ''r1'' ''alice'' 10 ''00:00:10''))
     = Inr None"
proof -
  have "getp (Str ''verified'') ''status'' = Undefined"
    by (simp add: arrayIndex_status)
  then have "processRun plainEcma defaultOptions offline
      (Obj (keptRun ''r1'' ''alice'' 10 ''00:00:10'')) = Inr None"
    unfolding processRun_def readProp_def keptRun_def
    by (simp add: nullish_def bindE_def newRunObj_def)
  then show ?thesis
    using processRun_guestRun[of 10 plainEcma offline "''r1''" "''alice''"]
    by (simp add: formatTime_examples)
qed

theorem processRun_rejects_normalized_run_witness:
  "processRun plainEcma defaultOptions offline (guestRun ''r1'' ''alice'' 10)
     = Inr (Some (keptRun ''r1'' ''alice'' 10 ''00:00:10''))
   \<and> \<not> includeUnverifiedRuns defaultOptions
   \<and> processRun plainEcma historyOptions offline (Obj (keptRun ''r1'' ''alice'' 10 ''00:00:10''))
     = Inr None"
proof -
  have k: "processRun plainEcma defaultOptions offline (guestRun ''r1'' ''alice'' 10)
     = Inr (Some (keptRun ''r1'' ''alice'' 10 ''00:00:10''))"
    using processRun_guestRun[of 10 plainEcma offline "''r1''" "''alice''"]
    by (simp add: formatTime_examples)
  have d: "\<not> includeUnverifiedRuns defaultOptions"
    by (simp add: defaultOptions_def)
  from processRun_rejects_normalized_run[OF k, of plainEcma historyOptions offline] d k
  show ?thesis by simp
qed

section \<open>The time string\<close>

text \<open>
  C9, as the code has it.  For a kept run whose primary time is a number with a
  floor of magnitude up to \<open>2^53\<close>, the time string is the one that the
  arithmetic of the specification gives on the integers for the floor of the
  time, each field padded to two characters: with the remainder of the source
  language for \<open>mod\<close> in every case, and with the mathematical \<open>mod\<close> as well
  when the time is not negative.  It is \<open>01:01:01\<close> for 3661 seconds, \<open>00:00:59\<close>
  for 59 and \<open>02:00:00\<close> for 7200.
\<close>

theorem time_string_of_kept_run:
  assumes "processRun js popts request raw = Inr (Some run)"
    and "primaryTime raw = Num t" and "\<bar>\<lfloor>t\<rfloor>\<bar> \<le> 2 ^ 53"
  shows "getp (Obj run) ''time'' = Str (specTime jsRem \<lfloor>t\<rfloor>)
    \<and> (0 \<le> t \<longrightarrow> getp (Obj run) ''time'' = Str (specTime (mod) \<lfloor>t\<rfloor>))
    \<and> specTime (mod) 3661 = ''01:01:01'' \<and> specTime (mod) 59 = ''00:00:59''
    \<and> specTime (mod) 7200 = ''02:00:00''"
proof -
  have "getp (Obj run) ''time'' = Str (formatTime js (Some \<lfloor>t\<rfloor>))"
    using processRun_retained(9)[OF assms(1)] assms(2) by (simp del: getp.simps)
  then have a: "getp (Obj run) ''time'' = Str (specTime jsRem \<lfloor>t\<rfloor>)"
    by (simp only: formatTime_specTime[OF assms(3)])
  have b: "0 \<le> t \<longrightarrow> getp (Obj run) ''time'' = Str (specTime (mod) \<lfloor>t\<rfloor>)"
    using a by (simp add: specTime_nonneg del: getp.simps)
  show ?thesis
    by (rule conjI[OF a conjI[OF b conjI[OF specTime_examples(1)
          conjI[OF specTime_examples(2) specTime_examples(3)]]]])
qed

text \<open>
  The numbers of the code are doubles.  A run of 18446744073710161920 seconds
  (a double, beyond \<open>2^53\<close>) is kept; the subtraction of line 133 rounds, and the
  hours of its time string are one more than the arithmetic of the integers
  gives.
\<close>

theorem time_string_of_kept_run_counterexample:
  "processRun plainEcma defaultOptions offline (guestRun ''r1'' ''alice'' 18446744073710161920)
     = Inr (Some (keptRun ''r1'' ''alice'' 18446744073710161920 ''5124095576030601:32:00''))
   \<and> specTime (mod) 18446744073710161920 = ''5124095576030600:32:00''
   \<and> specTime jsRem 18446744073710161920 = ''5124095576030600:32:00''
   \<and> getp (Obj (keptRun ''r1'' ''alice'' 18446744073710161920 ''5124095576030601:32:00'')) ''time''
       \<noteq> Str (specTime (mod) 18446744073710161920)"
proof -
  have k: "processRun plainEcma defaultOptions offline (guestRun ''r1'' ''alice'' 18446744073710161920)
     = Inr (Some (keptRun ''r1'' ''alice'' 18446744073710161920 ''5124095576030601:32:00''))"
    using processRun_guestRun[of 18446744073710161920 plainEcma offline "''r1''" "''alice''"]
    by (simp add: formatTime_large)
  have m: "specTime (mod) 18446744073710161920 = ''5124095576030600:32:00''"
    by (rule specTime_large)
  have j: "specTime jsRem 18446744073710161920 = ''5124095576030600:32:00''"
    by (simp add: specTime_nonneg specTime_large)
  have d: "getp (Obj (keptRun ''r1'' ''alice'' 18446744073710161920 ''5124095576030601:32:00'')) ''time''
       \<noteq> Str (specTime (mod) 18446744073710161920)"
    unfolding m by (simp add: keptRun_def)
  show ?thesis
    by (rule conjI[OF k conjI[OF m conjI[OF j d]]])
qed

theorem time_string_of_kept_run_witness:
  "processRun plainEcma defaultOptions offline (guestRun ''r1'' ''alice'' 3661)
     = Inr (Some (keptRun ''r1'' ''alice'' 3661 ''01:01:01''))
   \<and> primaryTime (guestRun ''r1'' ''alice'' 3661) = Num 3661 \<and> (0::rat) \<le> 3661
   \<and> \<bar>\<lfloor>3661 :: rat\<rfloor>\<bar> \<le> 2 ^ 53
   \<and> getp (Obj (keptRun ''r1'' ''alice'' 3661 ''01:01:01'')) ''time'' = Str (specTime (mod) 3661)
   \<and> specTime (mod) 3661 = ''01:01:01''"
proof -
  have k: "processRun plainEcma defaultOptions offline (guestRun ''r1'' ''alice'' 3661)
     = Inr (Some (keptRun ''r1'' ''alice'' 3661 ''01:01:01''))"
    using processRun_guestRun[of 3661 plainEcma offline "''r1''" "''alice''"]
    by (simp add: formatTime_examples)
  have p: "primaryTime (guestRun ''r1'' ''alice'' 3661) = Num 3661"
    by (simp add: guestRun_def primaryTime_def)
  have d: "\<bar>\<lfloor>3661 :: rat\<rfloor>\<bar> \<le> 2 ^ 53"
    by simp
  note t = time_string_of_kept_run[OF k p d]
  have a: "getp (Obj (keptRun ''r1'' ''alice'' 3661 ''01:01:01'')) ''time'' = Str (specTime (mod) 3661)"
    using t[THEN conjunct2, THEN conjunct1] by (simp del: getp.simps)
  have b: "specTime (mod) 3661 = ''01:01:01''"
    using t by blast
  have c: "(0::rat) \<le> 3661"
    by simp
  show ?thesis
    by (rule conjI[OF k conjI[OF p conjI[OF c conjI[OF d conjI[OF a b]]]]])
qed

section \<open>The ranks\<close>

text \<open>
  C1.  In the ranked entries of a leaderboard the first entry has rank 1 and
  every later entry has the rank of its predecessor when the two times are
  strictly equal, and its position counted from 1 otherwise.  When the times
  are numbers the entries are in ascending order of time and the rank of an
  entry is one more than the number of entries that are strictly faster: tied
  entries share a rank and the ranks after a tie are skipped.  Times 10, 10 and
  20 get the ranks 1, 1 and 3.
\<close>

theorem competition_ranking:
  assumes "rankRuns js popts runs = Inr lbEntries"
  shows "(\<forall>i<length lbEntries.
            rankOf (lbEntries ! i) =
              (if i = 0 then Num 1
               else if strictEquals (timeOf (lbEntries ! i)) (timeOf (lbEntries ! (i - 1)))
               then rankOf (lbEntries ! (i - 1))
               else Num (of_nat (i + 1))))
    \<and> ((\<forall>run\<in>set runs. hasTimeAndPlayer run \<longrightarrow> isNum (timeOf run)) \<longrightarrow>
          sorted (map timeValue lbEntries)
          \<and> (\<forall>i<length lbEntries.
                rankOf (lbEntries ! i) = Num (of_nat (1 + fasterThan (lbEntries ! i) lbEntries))))
    \<and> (\<exists>entries. rankRuns plainEcma defaultOptions tiedRuns = Inr entries
          \<and> map timeValue entries = [10, 10, 20]
          \<and> map rankOf entries = [Num 1, Num 1, Num 3])"
proof (intro conjI impI)
  from rankRuns_structure[OF assms] obtain m where
    out: "lbEntries = assignRanks (sortByTime js (unrankedEntries js popts runs m))"
    and kv: "\<forall>kv\<in>set m. snd kv = runsOf js (fst kv) runs \<and> runsOf js (fst kv) runs \<noteq> []"
    by blast
  let ?E = "unrankedEntries js popts runs m"
  let ?S = "sortByTime js ?E"
  have len: "length lbEntries = length ?S"
    unfolding out using assignRanks_ranked[of ?S] by (simp add: list_all2_lengthD)
  show "\<forall>i<length lbEntries.
            rankOf (lbEntries ! i) =
              (if i = 0 then Num 1
               else if strictEquals (timeOf (lbEntries ! i)) (timeOf (lbEntries ! (i - 1)))
               then rankOf (lbEntries ! (i - 1))
               else Num (of_nat (i + 1)))"
    using assignRanks_nth[of _ ?S] len unfolding out by simp
  have tv: "map timeValue lbEntries = map timeValue ?S"
    unfolding out by (rule ranked_map_timeValue[OF assignRanks_ranked])
  {
    assume num: "\<forall>run\<in>set runs. hasTimeAndPlayer run \<longrightarrow> isNum (timeOf run)"
    have E: "\<forall>e\<in>set ?E. isNum (timeOf e)"
    proof
      fix e assume "e \<in> set ?E"
      then obtain k where k: "k \<in> set m"
        "e = withHistory popts (sortByTime js (runsOf js (fst k) runs))"
        by (auto simp: unrankedEntries_def set_forIn)
      from kv k(1) have "runsOf js (fst k) runs \<noteq> []" by blast
      then have "sortByTime js (runsOf js (fst k) runs) \<noteq> []"
        using length_sortByTime[of js "runsOf js (fst k) runs"] by auto
      then have "hd (sortByTime js (runsOf js (fst k) runs)) \<in> set (runsOf js (fst k) runs)"
        using set_sortByTime[of js "runsOf js (fst k) runs"] hd_in_set by blast
      with num show "isNum (timeOf e)"
        unfolding k(2) by (auto simp: withHistory_fields set_runsOf)
    qed
    then have srt: "sorted (map timeValue ?S)"
      by (rule sorted_sortByTime)
    from E have S: "\<forall>e\<in>set ?S. isNum (timeOf e)"
      by (simp add: set_sortByTime)
    show "sorted (map timeValue lbEntries)"
      using srt tv by simp
    show "\<forall>i<length lbEntries.
            rankOf (lbEntries ! i) = Num (of_nat (1 + fasterThan (lbEntries ! i) lbEntries))"
    proof (intro allI impI)
      fix i assume i: "i < length lbEntries"
      with len have i': "i < length ?S" by simp
      have "timeValue (lbEntries ! i) = timeValue (?S ! i)"
        using tv i i' by (metis nth_map)
      then have "fasterThan (?S ! i) ?S = fasterThan (lbEntries ! i) lbEntries"
        using tv by (intro fasterThan_map) simp_all
      with assignRanks_competition[OF srt S i'] show
        "rankOf (lbEntries ! i) = Num (of_nat (1 + fasterThan (lbEntries ! i) lbEntries))"
        unfolding out by simp
    qed
  }
  show "\<exists>entries. rankRuns plainEcma defaultOptions tiedRuns = Inr entries
          \<and> map timeValue entries = [10, 10, 20]
          \<and> map rankOf entries = [Num 1, Num 1, Num 3]"
    unfolding rankRuns_tiedRuns by (simp add: keptRun_def timeValue_def timeOf_def)
qed


theorem competition_ranking_witness:
  "rankRuns plainEcma defaultOptions tiedRuns =
     Inr [setp (keptRun ''a'' ''alice'' 10 ''00:00:10'') ''rank'' (Num 1),
          setp (keptRun ''b'' ''bob'' 10 ''00:00:10'') ''rank'' (Num 1),
          setp (keptRun ''c'' ''carol'' 20 ''00:00:20'') ''rank'' (Num 3)]
   \<and> list_all (\<lambda>run. hasTimeAndPlayer run \<and> isNum (timeOf run)) tiedRuns
   \<and> sorted (map timeValue
         [setp (keptRun ''a'' ''alice'' 10 ''00:00:10'') ''rank'' (Num 1),
          setp (keptRun ''b'' ''bob'' 10 ''00:00:10'') ''rank'' (Num 1),
          setp (keptRun ''c'' ''carol'' 20 ''00:00:20'') ''rank'' (Num 3)])
   \<and> fasterThan (setp (keptRun ''c'' ''carol'' 20 ''00:00:20'') ''rank'' (Num 3))
         [setp (keptRun ''a'' ''alice'' 10 ''00:00:10'') ''rank'' (Num 1),
          setp (keptRun ''b'' ''bob'' 10 ''00:00:10'') ''rank'' (Num 1),
          setp (keptRun ''c'' ''carol'' 20 ''00:00:20'') ''rank'' (Num 3)] = 2"
proof -
  have num: "list_all (\<lambda>run. hasTimeAndPlayer run \<and> isNum (timeOf run)) tiedRuns"
    by code_simp
  then have "\<forall>run\<in>set tiedRuns. hasTimeAndPlayer run \<longrightarrow> isNum (timeOf run)"
    by (simp add: list_all_iff)
  with competition_ranking[OF rankRuns_tiedRuns] have
    "sorted (map timeValue
         [setp (keptRun ''a'' ''alice'' 10 ''00:00:10'') ''rank'' (Num 1),
          setp (keptRun ''b'' ''bob'' 10 ''00:00:10'') ''rank'' (Num 1),
          setp (keptRun ''c'' ''carol'' 20 ''00:00:20'') ''rank'' (Num 3)])"
    and "\<forall>i<length [setp (keptRun ''a'' ''alice'' 10 ''00:00:10'') ''rank'' (Num 1),
          setp (keptRun ''b'' ''bob'' 10 ''00:00:10'') ''rank'' (Num 1),
          setp (keptRun ''c'' ''carol'' 20 ''00:00:20'') ''rank'' (Num 3)].
        rankOf ([setp (keptRun ''a'' ''alice'' 10 ''00:00:10'') ''rank'' (Num 1),
          setp (keptRun ''b'' ''bob'' 10 ''00:00:10'') ''rank'' (Num 1),
          setp (keptRun ''c'' ''carol'' 20 ''00:00:20'') ''rank'' (Num 3)] ! i) =
        Num (of_nat (1 + fasterThan ([setp (keptRun ''a'' ''alice'' 10 ''00:00:10'') ''rank'' (Num 1),
          setp (keptRun ''b'' ''bob'' 10 ''00:00:10'') ''rank'' (Num 1),
          setp (keptRun ''c'' ''carol'' 20 ''00:00:20'') ''rank'' (Num 3)] ! i)
          [setp (keptRun ''a'' ''alice'' 10 ''00:00:10'') ''rank'' (Num 1),
          setp (keptRun ''b'' ''bob'' 10 ''00:00:10'') ''rank'' (Num 1),
          setp (keptRun ''c'' ''carol'' 20 ''00:00:20'') ''rank'' (Num 3)]))"
    by blast+
  from this(1) this(2)[rule_format, of 2] num rankRuns_tiedRuns show ?thesis
    by simp
qed

text \<open>
  C3.  Every entry of the ranked output is the fastest of a non-empty list of
  runs of the leaderboard that all have a time and a player with an id, with
  its rank and, when the history is kept, the rest of that list as its
  \<^verbatim>\<open>obsoleteRuns\<close>.  A run without time or without such a player is therefore
  neither an entry nor among the obsolete runs of one.
\<close>

theorem ranked_runs_have_time_and_player:
  assumes "rankRuns js popts runs = Inr lbEntries" and "entry \<in> set lbEntries"
  shows "\<exists>userRuns r. userRuns \<noteq> []
        \<and> entry = setp (withHistory popts userRuns) ''rank'' (Num r)
        \<and> (\<forall>run\<in>set userRuns. run \<in> set runs \<and> hasTimeAndPlayer run)"
proof -
  from rankRuns_structure[OF assms(1)] obtain m where
    out: "lbEntries = assignRanks (sortByTime js (unrankedEntries js popts runs m))"
    and kv: "\<forall>kv\<in>set m. snd kv = runsOf js (fst kv) runs \<and> runsOf js (fst kv) runs \<noteq> []"
    by blast
  from assignRanks_ranked[of "sortByTime js (unrankedEntries js popts runs m)"] assms(2)
  obtain e0 where e0: "e0 \<in> set (sortByTime js (unrankedEntries js popts runs m))" "ranked e0 entry"
    unfolding out by (blast dest: list_all2_in_set2)
  from e0(1) obtain k where k: "k \<in> set m"
    "e0 = withHistory popts (sortByTime js (runsOf js (fst k) runs))"
    by (auto simp: set_sortByTime unrankedEntries_def set_forIn)
  let ?userRuns = "sortByTime js (runsOf js (fst k) runs)"
  from kv k(1) have "runsOf js (fst k) runs \<noteq> []" by blast
  then have ne: "?userRuns \<noteq> []"
    using length_sortByTime[of js "runsOf js (fst k) runs"] by auto
  have "\<forall>run\<in>set ?userRuns. run \<in> set runs \<and> hasTimeAndPlayer run"
    by (simp add: set_sortByTime set_runsOf)
  with ne e0(2) k(2) show ?thesis
    unfolding ranked_def by blast
qed


theorem ranked_runs_have_time_and_player_witness:
  "rankRuns plainEcma historyOptions mixedRuns =
     Inr [setp (setp (keptRun ''b'' ''alice'' 10 ''00:00:10'') ''obsoleteRuns''
                 (Arr [Obj (keptRun ''a'' ''alice'' 15 ''00:00:15'')]))
            ''rank'' (Num 1)]
   \<and> \<not> hasTimeAndPlayer (teamRun ''t'' 5 ''00:00:05'')
   \<and> \<not> hasTimeAndPlayer (untimedRun ''u'' ''alice'')
   \<and> (\<exists>userRuns r. userRuns \<noteq> []
        \<and> setp (setp (keptRun ''b'' ''alice'' 10 ''00:00:10'') ''obsoleteRuns''
                 (Arr [Obj (keptRun ''a'' ''alice'' 15 ''00:00:15'')]))
            ''rank'' (Num 1) = setp (withHistory historyOptions userRuns) ''rank'' (Num r)
        \<and> (\<forall>run\<in>set userRuns. run \<in> set mixedRuns \<and> hasTimeAndPlayer run))"
proof -
  have "\<not> hasTimeAndPlayer (teamRun ''t'' 5 ''00:00:05'')"
    "\<not> hasTimeAndPlayer (untimedRun ''u'' ''alice'')"
    by code_simp+
  with ranked_runs_have_time_and_player[OF rankRuns_mixedRuns, of
      "setp (setp (keptRun ''b'' ''alice'' 10 ''00:00:10'') ''obsoleteRuns''
                 (Arr [Obj (keptRun ''a'' ''alice'' 15 ''00:00:15'')]))
            ''rank'' (Num 1)"]
    rankRuns_mixedRuns
  show ?thesis by simp
qed



section \<open>The time that is ranked\<close>

lemma floor_close: "\<lfloor>51 / 5 :: rat\<rfloor> = 10" "\<lfloor>107 / 10 :: rat\<rfloor> = 10"
  by (simp_all add: floor_eq_iff)

lemma processRun_closeRuns:
  "processRun plainEcma defaultOptions offline (guestRun ''r1'' ''alice'' (107 / 10))
     = Inr (Some (keptRun ''r1'' ''alice'' (107 / 10) ''00:00:10''))"
  "processRun plainEcma defaultOptions offline (guestRun ''r2'' ''bob'' (51 / 5))
     = Inr (Some (keptRun ''r2'' ''bob'' (51 / 5) ''00:00:10''))"
  "processRun plainEcma defaultOptions offline (guestRun ''r3'' ''carol'' (51 / 5))
     = Inr (Some (keptRun ''r3'' ''carol'' (51 / 5) ''00:00:10''))"
  using processRun_guestRun[of "107 / 10" plainEcma offline "''r1''" "''alice''"]
    processRun_guestRun[of "51 / 5" plainEcma offline "''r2''" "''bob''"]
    processRun_guestRun[of "51 / 5" plainEcma offline "''r3''" "''carol''"]
  by (simp_all add: floor_close formatTime_examples)

text \<open>
  C10.  The \<^verbatim>\<open>timeSeconds\<close> of a kept run is the primary time of the raw run
  as it is, with its fraction, and the time string is made of its floor.  The
  Ranker compares \<^verbatim>\<open>timeSeconds\<close>: when the times of the runs are numbers, an
  entry has a smaller rank than another exactly when its \<^verbatim>\<open>timeSeconds\<close> is
  smaller, and the same rank exactly when the two \<^verbatim>\<open>timeSeconds\<close> are equal,
  whatever the time strings show.  The runs of 10.7, 10.2 and 10.2 seconds, in
  this order, all show \<open>00:00:10\<close>; the two runs of 10.2 seconds come first with
  rank 1 and the run of 10.7 seconds gets rank 3.
\<close>

theorem timeSeconds_keeps_fraction:
  "(processRun js popts request raw = Inr (Some run) \<longrightarrow>
      timeOf run = primaryTime raw
      \<and> getp (Obj run) ''time'' = Str (formatTime js (Math_floor js (primaryTime raw)))
      \<and> (\<forall>t. primaryTime raw = Num t \<longrightarrow>
            timeOf run = Num t \<and> getp (Obj run) ''time'' = Str (formatTime js (Some \<lfloor>t\<rfloor>))))
   \<and> (rankRuns js popts runs = Inr lbEntries
        \<and> (\<forall>run\<in>set runs. hasTimeAndPlayer run \<longrightarrow> isNum (timeOf run)) \<longrightarrow>
      (\<forall>i<length lbEntries. \<forall>j<length lbEntries.
          (numOf (rankOf (lbEntries ! i)) < numOf (rankOf (lbEntries ! j))
             \<longleftrightarrow> numOf (timeOf (lbEntries ! i)) < numOf (timeOf (lbEntries ! j)))
        \<and> (rankOf (lbEntries ! i) = rankOf (lbEntries ! j)
             \<longleftrightarrow> timeOf (lbEntries ! i) = timeOf (lbEntries ! j))))
   \<and> processRun plainEcma defaultOptions offline (guestRun ''r1'' ''alice'' (107 / 10))
       = Inr (Some (keptRun ''r1'' ''alice'' (107 / 10) ''00:00:10''))
   \<and> processRun plainEcma defaultOptions offline (guestRun ''r2'' ''bob'' (51 / 5))
       = Inr (Some (keptRun ''r2'' ''bob'' (51 / 5) ''00:00:10''))
   \<and> processRun plainEcma defaultOptions offline (guestRun ''r3'' ''carol'' (51 / 5))
       = Inr (Some (keptRun ''r3'' ''carol'' (51 / 5) ''00:00:10''))
   \<and> rankRuns plainEcma defaultOptions
         [keptRun ''r1'' ''alice'' (107 / 10) ''00:00:10'', keptRun ''r2'' ''bob'' (51 / 5) ''00:00:10'',
          keptRun ''r3'' ''carol'' (51 / 5) ''00:00:10'']
       = Inr [setp (keptRun ''r2'' ''bob'' (51 / 5) ''00:00:10'') ''rank'' (Num 1),
              setp (keptRun ''r3'' ''carol'' (51 / 5) ''00:00:10'') ''rank'' (Num 1),
              setp (keptRun ''r1'' ''alice'' (107 / 10) ''00:00:10'') ''rank'' (Num 3)]"
proof (intro conjI impI)
  assume r: "processRun js popts request raw = Inr (Some run)"
  show t: "timeOf run = primaryTime raw"
    unfolding timeOf_def by (rule processRun_retained(8)[OF r])
  show s: "getp (Obj run) ''time'' = Str (formatTime js (Math_floor js (primaryTime raw)))"
    by (rule processRun_retained(9)[OF r])
  show "\<forall>t. primaryTime raw = Num t \<longrightarrow>
          timeOf run = Num t \<and> getp (Obj run) ''time'' = Str (formatTime js (Some \<lfloor>t\<rfloor>))"
    using t s by (simp del: getp.simps)
next
  assume a: "rankRuns js popts runs = Inr lbEntries
        \<and> (\<forall>run\<in>set runs. hasTimeAndPlayer run \<longrightarrow> isNum (timeOf run))"
  note n = rankRuns_numeric[OF a[THEN conjunct1] a[THEN conjunct2]]
  show "\<forall>i<length lbEntries. \<forall>j<length lbEntries.
          (numOf (rankOf (lbEntries ! i)) < numOf (rankOf (lbEntries ! j))
             \<longleftrightarrow> numOf (timeOf (lbEntries ! i)) < numOf (timeOf (lbEntries ! j)))
        \<and> (rankOf (lbEntries ! i) = rankOf (lbEntries ! j)
             \<longleftrightarrow> timeOf (lbEntries ! i) = timeOf (lbEntries ! j))"
  proof (intro allI impI)
    fix i j assume i: "i < length lbEntries" and j: "j < length lbEntries"
    from n(2) i j have "isNum (timeOf (lbEntries ! i))" "isNum (timeOf (lbEntries ! j))"
      by simp_all
    then have q: "timeOf (lbEntries ! i) = timeOf (lbEntries ! j)
        \<longleftrightarrow> timeValue (lbEntries ! i) = timeValue (lbEntries ! j)"
      unfolding timeValue_def
      by (cases "timeOf (lbEntries ! i)"; cases "timeOf (lbEntries ! j)") simp_all
    from ranks_follow_times[OF n(1) i j] q show
      "(numOf (rankOf (lbEntries ! i)) < numOf (rankOf (lbEntries ! j))
             \<longleftrightarrow> numOf (timeOf (lbEntries ! i)) < numOf (timeOf (lbEntries ! j)))
        \<and> (rankOf (lbEntries ! i) = rankOf (lbEntries ! j)
             \<longleftrightarrow> timeOf (lbEntries ! i) = timeOf (lbEntries ! j))"
      unfolding timeValue_def by simp
  qed
next
  show "rankRuns plainEcma defaultOptions
         [keptRun ''r1'' ''alice'' (107 / 10) ''00:00:10'', keptRun ''r2'' ''bob'' (51 / 5) ''00:00:10'',
          keptRun ''r3'' ''carol'' (51 / 5) ''00:00:10'']
       = Inr [setp (keptRun ''r2'' ''bob'' (51 / 5) ''00:00:10'') ''rank'' (Num 1),
              setp (keptRun ''r3'' ''carol'' (51 / 5) ''00:00:10'') ''rank'' (Num 1),
              setp (keptRun ''r1'' ''alice'' (107 / 10) ''00:00:10'') ''rank'' (Num 3)]"
    using rankRuns_closeRuns by (simp add: closeRuns_def)
qed (rule processRun_closeRuns)+

theorem timeSeconds_keeps_fraction_witness:
  "processRun plainEcma defaultOptions offline (guestRun ''r1'' ''alice'' (107 / 10))
       = Inr (Some (keptRun ''r1'' ''alice'' (107 / 10) ''00:00:10''))
   \<and> primaryTime (guestRun ''r1'' ''alice'' (107 / 10)) = Num (107 / 10)
   \<and> timeOf (keptRun ''r1'' ''alice'' (107 / 10) ''00:00:10'') = Num (107 / 10)
   \<and> getp (Obj (keptRun ''r1'' ''alice'' (107 / 10) ''00:00:10'')) ''time''
       = Str (formatTime plainEcma (Some \<lfloor>107 / 10 :: rat\<rfloor>))
   \<and> rankRuns plainEcma defaultOptions closeRuns
       = Inr [setp (keptRun ''r2'' ''bob'' (51 / 5) ''00:00:10'') ''rank'' (Num 1),
              setp (keptRun ''r3'' ''carol'' (51 / 5) ''00:00:10'') ''rank'' (Num 1),
              setp (keptRun ''r1'' ''alice'' (107 / 10) ''00:00:10'') ''rank'' (Num 3)]
   \<and> list_all (\<lambda>run. hasTimeAndPlayer run \<and> isNum (timeOf run)) closeRuns
   \<and> numOf (rankOf (setp (keptRun ''r2'' ''bob'' (51 / 5) ''00:00:10'') ''rank'' (Num 1)))
       < numOf (rankOf (setp (keptRun ''r1'' ''alice'' (107 / 10) ''00:00:10'') ''rank'' (Num 3)))
   \<and> rankOf (setp (keptRun ''r2'' ''bob'' (51 / 5) ''00:00:10'') ''rank'' (Num 1))
       = rankOf (setp (keptRun ''r3'' ''carol'' (51 / 5) ''00:00:10'') ''rank'' (Num 1))"
proof -
  let ?out = "[setp (keptRun ''r2'' ''bob'' (51 / 5) ''00:00:10'') ''rank'' (Num 1),
              setp (keptRun ''r3'' ''carol'' (51 / 5) ''00:00:10'') ''rank'' (Num 1),
              setp (keptRun ''r1'' ''alice'' (107 / 10) ''00:00:10'') ''rank'' (Num 3)]"
  have p: "primaryTime (guestRun ''r1'' ''alice'' (107 / 10)) = Num (107 / 10)"
    by (simp add: guestRun_def primaryTime_def)
  have num: "list_all (\<lambda>run. hasTimeAndPlayer run \<and> isNum (timeOf run)) closeRuns"
    by code_simp
  then have h: "\<forall>run\<in>set closeRuns. hasTimeAndPlayer run \<longrightarrow> isNum (timeOf run)"
    by (simp add: list_all_iff)
  note t = timeSeconds_keeps_fraction[where js = plainEcma and popts = defaultOptions
      and request = offline and raw = "guestRun ''r1'' ''alice'' (107 / 10)"
      and run = "keptRun ''r1'' ''alice'' (107 / 10) ''00:00:10''"
      and runs = closeRuns and lbEntries = ?out]
  have k: "processRun plainEcma defaultOptions offline (guestRun ''r1'' ''alice'' (107 / 10))
       = Inr (Some (keptRun ''r1'' ''alice'' (107 / 10) ''00:00:10''))"
    using t by blast
  from t k p have a: "timeOf (keptRun ''r1'' ''alice'' (107 / 10) ''00:00:10'') = Num (107 / 10)"
    and b: "getp (Obj (keptRun ''r1'' ''alice'' (107 / 10) ''00:00:10'')) ''time''
       = Str (formatTime plainEcma (Some \<lfloor>107 / 10 :: rat\<rfloor>))"
    by (simp_all del: getp.simps)
  from t rankRuns_closeRuns h have g: "\<forall>i<length ?out. \<forall>j<length ?out.
          (numOf (rankOf (?out ! i)) < numOf (rankOf (?out ! j))
             \<longleftrightarrow> numOf (timeOf (?out ! i)) < numOf (timeOf (?out ! j)))
        \<and> (rankOf (?out ! i) = rankOf (?out ! j)
             \<longleftrightarrow> timeOf (?out ! i) = timeOf (?out ! j))"
    by blast
  have tm: "timeOf (?out ! 0) = Num (51 / 5)" "timeOf (?out ! 1) = Num (51 / 5)"
    "timeOf (?out ! 2) = Num (107 / 10)"
    by (simp_all add: keptRun_def timeOf_def)
  from g[rule_format, of 0 2] tm have c:
    "numOf (rankOf (setp (keptRun ''r2'' ''bob'' (51 / 5) ''00:00:10'') ''rank'' (Num 1)))
       < numOf (rankOf (setp (keptRun ''r1'' ''alice'' (107 / 10) ''00:00:10'') ''rank'' (Num 3)))"
    by simp
  from g[rule_format, of 0 1] tm have d:
    "rankOf (setp (keptRun ''r2'' ''bob'' (51 / 5) ''00:00:10'') ''rank'' (Num 1))
       = rankOf (setp (keptRun ''r3'' ''carol'' (51 / 5) ''00:00:10'') ''rank'' (Num 1))"
    by simp
  show ?thesis
    by (rule conjI[OF k conjI[OF p conjI[OF a conjI[OF b conjI[OF rankRuns_closeRuns
          conjI[OF num conjI[OF c d]]]]]]])
qed

section \<open>The leaderboard of a run\<close>

text \<open>
  C6.  For a category whose variables are \<open>V1\<close> and \<open>V2\<close>, in this order, and a
  run that records the value \<open>A\<close> of \<open>V1\<close> and the value \<open>B\<close> of \<open>V2\<close>, the run
  is pushed to the leaderboard with the id \<open>cat$V1^A$V2^B\<close>, whatever the order
  in which the run records the two values; a leaderboard made for it has this id
  and the name of the category followed by the two labels.  For two different
  variable ids without \<open>^\<close> this is not the id with the variables exchanged.
\<close>

theorem breakout_id_follows_variable_order:
  assumes "cat_variables catObj = [v1, v2]"
    and "var_id v1 = Str V1" and "var_id v2 = Str V2"
    and "getp (Obj runObj) ''variables'' = Obj recorded"
    and "map_of recorded V1 = Some (Str A)" and "map_of recorded V2 = Some (Str B)"
    and "A \<noteq> []" and "B \<noteq> []"
    and "map_of (var_values v1) A = Some (Obj value1)"
    and "map_of (var_values v2) B = Some (Obj value2)"
    and "lbId = catId @ ''$'' @ V1 @ ''^'' @ A @ ''$'' @ V2 @ ''^'' @ B"
    and "lbName = ToString js (cat_name catObj) @ '' - '' @ ToString js (getp (Obj value1) ''label'')
                    @ '', '' @ ToString js (getp (Obj value2) ''label'')"
  shows "breakoutRun js catId catObj runObj leaderboards =
           Inr (placeRun lbId catId (setp (setp [] V1 (Str A)) V2 (Str B)) lbName runObj leaderboards)
    \<and> (\<exists>lbObj. map_of (placeRun lbId catId (setp (setp [] V1 (Str A)) V2 (Str B)) lbName runObj
                        leaderboards) lbId = Some lbObj
           \<and> last (lb_runs lbObj) = runObj
           \<and> (map_of leaderboards lbId = None \<longrightarrow> lb_id lbObj = lbId \<and> lb_name lbObj = Str lbName))
    \<and> (V1 \<noteq> V2 \<and> CHR ''^'' \<notin> set V1 \<and> CHR ''^'' \<notin> set V2 \<longrightarrow>
          lbId \<noteq> catId @ ''$'' @ V2 @ ''^'' @ B @ ''$'' @ V1 @ ''^'' @ A)"
proof (intro conjI impI)
  have c: "\<forall>v\<in>set (cat_variables catObj). categorized js runObj v"
    using assms(1-10) by (simp add: categorized_def runValue_def getMember_own)
  have n: "\<not> nullish (getp (Obj runObj) ''variables'')"
    using assms(4) by (simp add: nullish_def)
  have rv: "runValue js runObj v1 = Str A" "runValue js runObj v2 = Str B"
    using assms(2-6) by (simp_all add: runValue_def getMember_own)
  show "breakoutRun js catId catObj runObj leaderboards =
           Inr (placeRun lbId catId (setp (setp [] V1 (Str A)) V2 (Str B)) lbName runObj leaderboards)"
    unfolding breakoutRun_categorized[OF n c] assms(1,11,12)
    using assms(2,3,9,10) by (simp add: idPart_def labelOf_def rv getMember_own)
  show "\<exists>lbObj. map_of (placeRun lbId catId (setp (setp [] V1 (Str A)) V2 (Str B)) lbName runObj
                        leaderboards) lbId = Some lbObj
           \<and> last (lb_runs lbObj) = runObj
           \<and> (map_of leaderboards lbId = None \<longrightarrow> lb_id lbObj = lbId \<and> lb_name lbObj = Str lbName)"
    by (cases "map_of leaderboards lbId") (simp_all add: map_of_placeRun)
next
  assume d: "V1 \<noteq> V2 \<and> CHR ''^'' \<notin> set V1 \<and> CHR ''^'' \<notin> set V2"
  show "lbId \<noteq> catId @ ''$'' @ V2 @ ''^'' @ B @ ''$'' @ V1 @ ''^'' @ A"
  proof
    assume "lbId = catId @ ''$'' @ V2 @ ''^'' @ B @ ''$'' @ V1 @ ''^'' @ A"
    with assms(11) have e: "V1 @ CHR ''^'' # (A @ ''$'' @ V2 @ ''^'' @ B)
        = V2 @ CHR ''^'' # (B @ ''$'' @ V1 @ ''^'' @ A)"
      by simp
    from d have "CHR ''^'' \<notin> set V1" and "CHR ''^'' \<notin> set V2"
      by simp_all
    from distinct_prefix_before[OF this e] d show False
      by simp
  qed
qed

theorem breakout_id_follows_variable_order_witness:
  "cat_variables sampleCategory = [variable1, variable2]
   \<and> getp (Obj (variedRun ''r1'' [(''V2'', Str ''B''), (''V1'', Str ''A'')])) ''variables''
       = Obj [(''V2'', Str ''B''), (''V1'', Str ''A'')]
   \<and> breakoutRun plainEcma ''cat'' sampleCategory
         (variedRun ''r1'' [(''V2'', Str ''B''), (''V1'', Str ''A'')]) []
       = Inr (placeRun ''cat$V1^A$V2^B'' ''cat'' (setp (setp [] ''V1'' (Str ''A'')) ''V2'' (Str ''B''))
                ''Any% - Easy, 1.0'' (variedRun ''r1'' [(''V2'', Str ''B''), (''V1'', Str ''A'')]) [])
   \<and> ''cat$V1^A$V2^B'' \<noteq> ''cat$V2^B$V1^A''"
proof -
  have v: "cat_variables sampleCategory = [variable1, variable2]"
    by (simp add: sampleCategory_def)
  have r: "getp (Obj (variedRun ''r1'' [(''V2'', Str ''B''), (''V1'', Str ''A'')])) ''variables''
       = Obj [(''V2'', Str ''B''), (''V1'', Str ''A'')]"
    by (simp add: variedRun_def)
  from breakout_id_follows_variable_order[OF v _ _ r, where ?V1.0 = "''V1''" and ?V2.0 = "''V2''"
      and A = "''A''" and B = "''B''" and catId = "''cat''" and js = plainEcma
      and ?value1.0 = "[(''label'', Str ''Easy''), (''rules'', Null)]"
      and ?value2.0 = "[(''label'', Str ''1.0''), (''rules'', Null)]"
      and lbId = "''cat$V1^A$V2^B''" and lbName = "''Any% - Easy, 1.0''" and leaderboards = "[]"]
    v r
  show ?thesis
    by (simp add: variable1_def variable2_def sampleCategory_def)
qed

section \<open>The runs without a leaderboard of their values\<close>

text \<open>
  A run for which the test of lines 227-234 fails at some variable of its
  category is pushed to the leaderboard with the id of the category followed by
  \<open>$UNCATEGORIZED\<close>; a leaderboard made for it has the name of the category
  followed by \<open> - Uncategorized\<close>.  The run is the last of the runs of that
  leaderboard and no other leaderboard changes.
\<close>

lemma breakoutRun_uncategorized:
  assumes "\<not> nullish (getp (Obj runObj) ''variables'')"
    and "\<exists>catVariable\<in>set (cat_variables catObj). \<not> categorized js runObj catVariable"
    and "lbId = catId @ ''$UNCATEGORIZED''"
    and "lbName = ToString js (cat_name catObj) @ '' - Uncategorized''"
  shows "\<exists>usedVars leaderboards'.
           breakoutRun js catId catObj runObj leaderboards = Inr leaderboards'
         \<and> leaderboards' = placeRun lbId catId usedVars lbName runObj leaderboards
         \<and> (\<exists>lbObj. map_of leaderboards' lbId = Some lbObj
               \<and> lb_runs lbObj =
                   (case map_of leaderboards lbId of None \<Rightarrow> [] | Some old \<Rightarrow> lb_runs old)
                     @ [runObj]
               \<and> (map_of leaderboards lbId = None \<longrightarrow>
                     lb_id lbObj = lbId \<and> lb_categoryId lbObj = catId
                     \<and> lb_name lbObj = Str lbName))
         \<and> (\<forall>k. k \<noteq> lbId \<longrightarrow> map_of leaderboards' k = map_of leaderboards k)"
proof -
  from walkVariables_uncategorized[OF assms(1,2), of "[]" "[]"]
  obtain usedVars orderedVars where
    w: "walkVariables js runObj (cat_variables catObj) [] [] = Inr (True, usedVars, orderedVars)"
    by blast
  have b: "breakoutRun js catId catObj runObj leaderboards =
      Inr (placeRun lbId catId usedVars lbName runObj leaderboards)"
    unfolding breakoutRun_def w assms(3,4) by (simp add: bindE_def leaderboardOf_def)
  let ?L = "placeRun lbId catId usedVars lbName runObj leaderboards"
  have p: "\<exists>lbObj. map_of ?L lbId = Some lbObj
               \<and> lb_runs lbObj =
                   (case map_of leaderboards lbId of None \<Rightarrow> [] | Some old \<Rightarrow> lb_runs old)
                     @ [runObj]
               \<and> (map_of leaderboards lbId = None \<longrightarrow>
                     lb_id lbObj = lbId \<and> lb_categoryId lbObj = catId
                     \<and> lb_name lbObj = Str lbName)"
    by (cases "map_of leaderboards lbId") (simp_all add: map_of_placeRun)
  have q: "\<forall>k. k \<noteq> lbId \<longrightarrow> map_of ?L k = map_of leaderboards k"
    by (simp add: map_of_placeRun)
  show ?thesis
    by (rule exI[of _ usedVars], rule exI[of _ ?L]) (rule conjI[OF b conjI[OF refl conjI[OF p q]]])
qed

lemma breakoutRun_sample_uncategorized:
  "\<exists>usedVars. breakoutRun plainEcma ''cat'' sampleCategory (variedRun ''r2'' [(''V1'', Str ''A'')]) []
         = Inr (placeRun ''cat$UNCATEGORIZED'' ''cat'' usedVars ''Any% - Uncategorized''
                  (variedRun ''r2'' [(''V1'', Str ''A'')]) [])"
proof -
  have n: "\<not> nullish (getp (Obj (variedRun ''r2'' [(''V1'', Str ''A'')])) ''variables'')"
    by (simp add: variedRun_def nullish_def)
  have "\<not> categorized plainEcma (variedRun ''r2'' [(''V1'', Str ''A'')]) variable2"
    by (simp add: categorized_def runValue_def variedRun_def variable2_def getMember_def
        inheritedName_def)
  then have e: "\<exists>catVariable\<in>set (cat_variables sampleCategory).
      \<not> categorized plainEcma (variedRun ''r2'' [(''V1'', Str ''A'')]) catVariable"
    by (simp add: sampleCategory_def)
  from breakoutRun_uncategorized[OF n e, of "''cat$UNCATEGORIZED''" "''cat''"
      "''Any% - Uncategorized''" "[]"]
  show ?thesis
    by (simp add: sampleCategory_def) blast
qed

text \<open>
  C7.  A run whose recorded value is no value of the variable is to go to the
  leaderboard \<open>$UNCATEGORIZED\<close>.  Line 231 tests the value by reading it as a
  property of the plain object \<^verbatim>\<open>catVariable.values\<close>, without asking whether the
  property is its own.  A recorded value that names a member of
  \<^verbatim>\<open>Object.prototype\<close>, such as \<open>constructor\<close>, is found there although the
  variable has no such value: for variables \<open>V1\<close> and \<open>V2\<close> and a run that
  records the value \<open>A\<close> of \<open>V1\<close> and such a name \<open>k\<close> for \<open>V2\<close>, the run is pushed
  to the leaderboard \<open>cat$V1^A$V2^k\<close>, whose name ends in \<open>undefined\<close> for the label
  that the member does not have, and the leaderboard \<open>cat$UNCATEGORIZED\<close> is as
  it was.
\<close>

theorem inherited_value_is_not_uncategorized:
  assumes "cat_variables catObj = [v1, v2]"
    and "var_id v1 = Str V1" and "var_id v2 = Str V2"
    and "getp (Obj runObj) ''variables'' = Obj recorded"
    and "map_of recorded V1 = Some (Str A)" and "map_of recorded V2 = Some (Str k)"
    and "A \<noteq> []" and "map_of (var_values v1) A = Some (Obj value1)"
    and "inheritedName k" and "map_of (var_values v2) k = None"
    and "lbId = catId @ ''$'' @ V1 @ ''^'' @ A @ ''$'' @ V2 @ ''^'' @ k"
    and "lbName = ToString js (cat_name catObj) @ '' - '' @ ToString js (getp (Obj value1) ''label'')
                    @ '', undefined''"
  shows "breakoutRun js catId catObj runObj leaderboards =
           Inr (placeRun lbId catId (setp (setp [] V1 (Str A)) V2 (Str k)) lbName runObj leaderboards)
    \<and> lbId \<noteq> catId @ ''$UNCATEGORIZED''
    \<and> map_of (placeRun lbId catId (setp (setp [] V1 (Str A)) V2 (Str k)) lbName runObj leaderboards)
          (catId @ ''$UNCATEGORIZED'')
        = map_of leaderboards (catId @ ''$UNCATEGORIZED'')"
proof -
  from assms(9) have k: "k \<noteq> []"
    by (auto simp: inheritedName_def)
  have g: "getMember js (Obj (var_values v2)) k = Builtin k"
    using assms(9,10) by (simp add: getMember_inherited)
  have rv: "runValue js runObj v1 = Str A" "runValue js runObj v2 = Str k"
    using assms(2-6) by (simp_all add: runValue_def getMember_own)
  have c: "\<forall>v\<in>set (cat_variables catObj). categorized js runObj v"
    using assms(1,7,8) k g by (simp add: categorized_def rv getMember_own)
  have n: "\<not> nullish (getp (Obj runObj) ''variables'')"
    using assms(4) by (simp add: nullish_def)
  have b: "breakoutRun js catId catObj runObj leaderboards =
           Inr (placeRun lbId catId (setp (setp [] V1 (Str A)) V2 (Str k)) lbName runObj leaderboards)"
    unfolding breakoutRun_categorized[OF n c] assms(1,11,12)
    using assms(2,3,8) g by (simp add: idPart_def labelOf_def rv getMember_own)
  have "CHR ''^'' \<in> set (V1 @ ''^'' @ A @ ''$'' @ V2 @ ''^'' @ k)"
    by simp
  moreover have "CHR ''^'' \<notin> set ''UNCATEGORIZED''"
    by simp
  ultimately have "V1 @ ''^'' @ A @ ''$'' @ V2 @ ''^'' @ k \<noteq> ''UNCATEGORIZED''"
    by metis
  then have d: "lbId \<noteq> catId @ ''$UNCATEGORIZED''"
    unfolding assms(11) by simp
  then have m: "map_of (placeRun lbId catId (setp (setp [] V1 (Str A)) V2 (Str k)) lbName runObj
        leaderboards) (catId @ ''$UNCATEGORIZED'') = map_of leaderboards (catId @ ''$UNCATEGORIZED'')"
    by (simp add: map_of_placeRun)
  show ?thesis
    by (rule conjI[OF b conjI[OF d m]])
qed

theorem inherited_value_is_not_uncategorized_witness:
  "cat_variables sampleCategory = [variable1, variable2]
   \<and> getp (Obj (variedRun ''r3'' [(''V1'', Str ''A''), (''V2'', Str ''constructor'')])) ''variables''
       = Obj [(''V1'', Str ''A''), (''V2'', Str ''constructor'')]
   \<and> inheritedName ''constructor'' \<and> map_of (var_values variable2) ''constructor'' = None
   \<and> breakoutRun plainEcma ''cat'' sampleCategory
         (variedRun ''r3'' [(''V1'', Str ''A''), (''V2'', Str ''constructor'')]) []
       = Inr (placeRun ''cat$V1^A$V2^constructor'' ''cat''
                (setp (setp [] ''V1'' (Str ''A'')) ''V2'' (Str ''constructor''))
                ''Any% - Easy, undefined''
                (variedRun ''r3'' [(''V1'', Str ''A''), (''V2'', Str ''constructor'')]) [])
   \<and> ''cat$V1^A$V2^constructor'' \<noteq> ''cat$UNCATEGORIZED''"
proof -
  have v: "cat_variables sampleCategory = [variable1, variable2]"
    by (simp add: sampleCategory_def)
  have r: "getp (Obj (variedRun ''r3'' [(''V1'', Str ''A''), (''V2'', Str ''constructor'')])) ''variables''
       = Obj [(''V1'', Str ''A''), (''V2'', Str ''constructor'')]"
    by (simp add: variedRun_def)
  have i: "inheritedName ''constructor''"
    by (simp add: inheritedName_def)
  have o: "map_of (var_values variable2) ''constructor'' = None"
    by (simp add: variable2_def)
  note t = inherited_value_is_not_uncategorized[OF v _ _ r _ _ _ _ i o,
      where ?V1.0 = "''V1''" and ?V2.0 = "''V2''" and A = "''A''" and catId = "''cat''"
      and js = plainEcma and ?value1.0 = "[(''label'', Str ''Easy''), (''rules'', Null)]"
      and lbId = "''cat$V1^A$V2^constructor''" and lbName = "''Any% - Easy, undefined''"
      and leaderboards = "[]"]
  have b: "breakoutRun plainEcma ''cat'' sampleCategory
         (variedRun ''r3'' [(''V1'', Str ''A''), (''V2'', Str ''constructor'')]) []
       = Inr (placeRun ''cat$V1^A$V2^constructor'' ''cat''
                (setp (setp [] ''V1'' (Str ''A'')) ''V2'' (Str ''constructor''))
                ''Any% - Easy, undefined''
                (variedRun ''r3'' [(''V1'', Str ''A''), (''V2'', Str ''constructor'')]) [])"
    using t by (simp add: variable1_def variable2_def sampleCategory_def)
  have d: "''cat$V1^A$V2^constructor'' \<noteq> ''cat$UNCATEGORIZED''"
    by simp
  show ?thesis
    by (rule conjI[OF v conjI[OF r conjI[OF i conjI[OF o conjI[OF b d]]]]])
qed

end
